theory Spec2Isabelle
  imports Complex_Main "HOL-Library.Word"
begin

unbundle bit_operations_syntax

section \<open>Values of the platform\<close>

text \<open>
  The live voice component (\<^verbatim>\<open>src/components/LiveVoiceMode.tsx\<close>) and the audio helpers
  of the service module (\<^verbatim>\<open>createPcmBlob\<close>, \<^verbatim>\<open>base64ToArrayBuffer\<close>,
  \<^verbatim>\<open>arrayBufferToBase64\<close>) run on the browser's typed arrays, strings and Web Audio
  objects. They are represented as follows.

  \<^item> An \<^verbatim>\<open>ArrayBuffer\<close> or \<^verbatim>\<open>Uint8Array\<close> is a list of \<open>8 word\<close>, an
    \<^verbatim>\<open>Int16Array\<close> a list of \<open>16 word\<close> read with \<open>sint\<close>.
  \<^item> A \<^verbatim>\<open>Float32Array\<close> and every time of an audio context is a list of, or a,
    \<open>real\<close>. Every finite float is a real number, and on the samples the codec handles
    the arithmetic of the source is exact: a clamped sample has at most 24 significant
    bits, so its product with \<^verbatim>\<open>0x7FFF\<close> or \<^verbatim>\<open>0x8000\<close> fits the 53 bits of a
    double, and a 16-bit integer divided by \<^verbatim>\<open>32768.0\<close> fits a float. The value
    \<^verbatim>\<open>NaN\<close> has no counterpart here.
  \<^item> A JavaScript string is a \<open>string\<close>. Its characters are the code units 0 to 255,
    which is all that \<^verbatim>\<open>btoa\<close> accepts and all that \<^verbatim>\<open>atob\<close> returns.
  \<^item> An exception is a value of \<open>error\<close>, and a function that can throw returns
    \<open>error + 'a\<close> with \<open>Inl\<close> for the exception.
\<close>

datatype error =
    RangeError
  | InvalidStateError
  | InvalidCharacterError
  | NotSupportedError

type_synonym byte = "8 word"
type_synonym int16 = "16 word"

section \<open>The binary-to-text transport encoding\<close>

text \<open>
  \<^verbatim>\<open>btoa\<close> and \<^verbatim>\<open>atob\<close> are built into the browser. \<open>btoa\<close> is Base64 with
  padding (RFC 4648, section 4) and \<open>atob\<close> is the forgiving-base64 decode of the WHATWG
  Infra standard: ASCII whitespace is removed, up to two trailing \<^verbatim>\<open>=\<close> are removed
  when the length is a multiple of four, a length of 1 modulo 4 or a character outside the
  alphabet is an \<^verbatim>\<open>InvalidCharacterError\<close>, and a final group of two or three
  characters yields one or two bytes, its spare low bits discarded.
\<close>

definition b64_alphabet :: string where
  "b64_alphabet = ''ABCDEFGHIJKLMNOPQRSTUVWXYZabcdefghijklmnopqrstuvwxyz0123456789+/''"

definition b64_char :: "nat \<Rightarrow> char" where
  "b64_char i = b64_alphabet ! i"

fun index_of :: "'a \<Rightarrow> 'a list \<Rightarrow> nat" where
  "index_of c [] = 0"
| "index_of c (x # xs) = (if x = c then 0 else Suc (index_of c xs))"

fun btoa_groups :: "nat list \<Rightarrow> string" where
  "btoa_groups [] = []"
| "btoa_groups [a] =
     [b64_char (a div 4), b64_char ((a mod 4) * 16), CHR ''='', CHR ''='']"
| "btoa_groups [a, b] =
     [b64_char (a div 4), b64_char ((a mod 4) * 16 + b div 16),
      b64_char ((b mod 16) * 4), CHR ''='']"
| "btoa_groups (a # b # c # rest) =
     b64_char (a div 4) # b64_char ((a mod 4) * 16 + b div 16) #
     b64_char ((b mod 16) * 4 + c div 64) # b64_char (c mod 64) # btoa_groups rest"

definition btoa :: "string \<Rightarrow> string" where
  "btoa s = btoa_groups (map of_char s)"

definition ascii_whitespace :: "char \<Rightarrow> bool" where
  "ascii_whitespace c = (c \<in> {CHR 0x09, CHR 0x0A, CHR 0x0C, CHR 0x0D, CHR 0x20})"

definition strip_padding :: "string \<Rightarrow> string" where
  "strip_padding d =
     (if length d mod 4 = 0 then
        (if 2 \<le> length d \<and> drop (length d - 2) d = ''=='' then take (length d - 2) d
         else if 1 \<le> length d \<and> drop (length d - 1) d = ''='' then take (length d - 1) d
         else d)
      else d)"

fun atob_groups :: "nat list \<Rightarrow> nat list" where
  "atob_groups (a # b # c # d # rest) =
     (a * 4 + b div 16) # ((b mod 16) * 16 + c div 4) # ((c mod 4) * 64 + d) #
     atob_groups rest"
| "atob_groups [a, b, c] = [a * 4 + b div 16, (b mod 16) * 16 + c div 4]"
| "atob_groups [a, b] = [a * 4 + b div 16]"
| "atob_groups _ = []"

definition atob :: "string \<Rightarrow> error + string" where
  "atob data =
     (let d = strip_padding (filter (\<lambda>c. \<not> ascii_whitespace c) data)
      in if length d mod 4 = 1 then Inl InvalidCharacterError
         else if list_ex (\<lambda>c. \<not> List.member b64_alphabet c) d then Inl InvalidCharacterError
         else Inr (map char_of (atob_groups (map (\<lambda>c. index_of c b64_alphabet) d))))"

text \<open>
  \<^verbatim>\<open>arrayBufferToBase64\<close> appends \<^verbatim>\<open>String.fromCharCode(bytes[i])\<close> for every byte
  and applies \<^verbatim>\<open>btoa\<close>; \<^verbatim>\<open>base64ToArrayBuffer\<close> applies \<^verbatim>\<open>atob\<close> and stores
  \<^verbatim>\<open>charCodeAt(i)\<close> of every character in a \<^verbatim>\<open>Uint8Array\<close>.
\<close>

definition arrayBufferToBase64 :: "byte list \<Rightarrow> string" where
  "arrayBufferToBase64 buffer = btoa (map (\<lambda>b. char_of (unat b)) buffer)"

definition base64ToArrayBuffer :: "string \<Rightarrow> error + byte list" where
  "base64ToArrayBuffer base64 =
     (case atob base64 of
        Inl e \<Rightarrow> Inl e
      | Inr binaryString \<Rightarrow> Inr (map (\<lambda>c. word_of_nat (of_char c)) binaryString))"

section \<open>The PCM codec\<close>

text \<open>
  Storing a number in an \<^verbatim>\<open>Int16Array\<close> truncates it towards zero and keeps the low
  16 bits (ToInt16 of ECMAScript). The array's buffer holds each element low byte first.
\<close>

definition trunc :: "real \<Rightarrow> int" where
  "trunc x = (if x < 0 then \<lceil>x\<rceil> else \<lfloor>x\<rfloor>)"

definition toInt16 :: "real \<Rightarrow> int16" where
  "toInt16 x = word_of_int (trunc x)"

definition int16_bytes :: "int16 \<Rightarrow> byte list" where
  "int16_bytes w = [ucast w, ucast (drop_bit 8 w)]"

definition int16_buffer :: "int16 list \<Rightarrow> byte list" where
  "int16_buffer ws = concat (map int16_bytes ws)"

definition pcm_sample :: "real \<Rightarrow> int16" where
  "pcm_sample d =
     (let s = max (- 1) (min 1 d)
      in toInt16 (if s < 0 then s * 32768 else s * 32767))"

definition pcm16_bytes :: "real list \<Rightarrow> byte list" where
  "pcm16_bytes data = int16_buffer (map pcm_sample data)"

definition createPcmBlob :: "real list \<Rightarrow> string \<times> string" where
  "createPcmBlob data =
     (arrayBufferToBase64 (pcm16_bytes data), ''audio/pcm;rate=16000'')"

text \<open>
  \<^verbatim>\<open>new Int16Array(arrayBuffer)\<close> throws a \<^verbatim>\<open>RangeError\<close> when the byte length of the
  buffer is not a multiple of the element size, and \<^verbatim>\<open>createBuffer\<close> throws a
  \<^verbatim>\<open>NotSupportedError\<close> when asked for zero frames. An \<^verbatim>\<open>AudioBuffer\<close> of one channel
  is the list of its samples; its duration is its length over its rate of 24000.
\<close>

fun int16_view :: "byte list \<Rightarrow> int16 list" where
  "int16_view (lo # hi # rest) = (ucast lo OR push_bit 8 (ucast hi)) # int16_view rest"
| "int16_view _ = []"

definition new_Int16Array :: "byte list \<Rightarrow> error + int16 list" where
  "new_Int16Array arrayBuffer =
     (if length arrayBuffer mod 2 \<noteq> 0 then Inl RangeError
      else Inr (int16_view arrayBuffer))"

definition createBuffer :: "nat \<Rightarrow> error + real list" where
  "createBuffer frameCount =
     (if frameCount = 0 then Inl NotSupportedError else Inr (replicate frameCount 0))"

definition decodeRawPcm :: "byte list \<Rightarrow> error + real list" where
  "decodeRawPcm arrayBuffer =
     (case new_Int16Array arrayBuffer of
        Inl e \<Rightarrow> Inl e
      | Inr dataInt16 \<Rightarrow>
          (case createBuffer (length dataInt16) of
             Inl e \<Rightarrow> Inl e
           | Inr channelData \<Rightarrow>
               Inr (map (\<lambda>w. real_of_int (sint w) / 32768) dataInt16)))"

definition duration :: "real list \<Rightarrow> real" where
  "duration audioBuffer = real (length audioBuffer) / 24000"


section \<open>The state of the live voice component\<close>

text \<open>
  The component keeps its React state (\<^verbatim>\<open>status\<close>, \<^verbatim>\<open>isMuted\<close>, \<^verbatim>\<open>volume\<close>) and
  its refs. A ref to a platform object holds a handle, a natural number, and \<open>None\<close> is
  \<^verbatim>\<open>null\<close>; a media stream is the list of its tracks. The
  \<^verbatim>\<open>AudioBufferSourceNode\<close>s live in a store, a list indexed by handle, and the set
  \<^verbatim>\<open>activeSourcesRef\<close> is the list of its members' handles in insertion order, which is
  the order in which \<^verbatim>\<open>forEach\<close> visits a \<^verbatim>\<open>Set\<close>. Calls that reach the session,
  an audio context or a track are appended to \<open>calls\<close>.
\<close>

datatype status = Connecting | Connected | Error | Disconnected

record source_node =
  buffer :: "real list"
  start_time :: "real option"
  stopped :: bool

datatype call =
    SessionClose nat
  | ContextClose nat
  | TrackStop nat
  | SendRealtimeInput nat "string \<times> string"

text \<open>
  A function of the component closes over the constants of the render that created it.
  \<^verbatim>\<open>startSession\<close> is called by the effect on \<^verbatim>\<open>isOpen\<close>, so the session
  callbacks it creates, and the \<^verbatim>\<open>setupAudioInput\<close> that \<^verbatim>\<open>onOpen\<close> calls, see the
  \<^verbatim>\<open>isMuted\<close> of that render. \<open>session_callbacks\<close> is the environment of the callbacks
  handed to \<^verbatim>\<open>connectToLiveSession\<close> and \<open>audio_handler\<close> that of the function stored
  in \<^verbatim>\<open>processor.onaudioprocess\<close>.
\<close>

record session_callbacks =
  cb_isMuted :: bool
  cb_sessionPromise :: nat

record audio_handler =
  h_isMuted :: bool
  h_sessionPromise :: nat

record state =
  status :: status
  isMuted :: bool
  volume :: real
  inputContextRef :: "nat option"
  outputContextRef :: "nat option"
  streamRef :: "nat list option"
  processorRef :: "nat option"
  sourceRef :: "nat option"
  outputNodeRef :: "nat option"
  nextStartTimeRef :: real
  activeSourcesRef :: "nat list"
  sessionPromiseRef :: "nat option"
  nodes :: "source_node list"
  callbacks :: "session_callbacks option"
  onaudioprocess :: "audio_handler option"
  calls :: "call list"

definition initial :: state where
  "initial =
     \<lparr>status = Connecting, isMuted = False, volume = 0,
      inputContextRef = None, outputContextRef = None, streamRef = None,
      processorRef = None, sourceRef = None, outputNodeRef = None,
      nextStartTimeRef = 0, activeSourcesRef = [], sessionPromiseRef = None,
      nodes = [], callbacks = None, onaudioprocess = None, calls = []\<rparr>"

subsection \<open>Playback nodes\<close>

text \<open>
  \<^verbatim>\<open>start(when)\<close> throws an \<^verbatim>\<open>InvalidStateError\<close> on a node that was started before
  and a \<^verbatim>\<open>RangeError\<close> for a negative time; \<^verbatim>\<open>stop()\<close> throws an
  \<^verbatim>\<open>InvalidStateError\<close> on a node that was never started, and is accepted on a node
  that has been stopped or has ended.
\<close>

definition start :: "real \<Rightarrow> source_node \<Rightarrow> error + source_node" where
  "start when n =
     (if start_time n \<noteq> None then Inl InvalidStateError
      else if when < 0 then Inl RangeError
      else Inr (n\<lparr>start_time := Some when\<rparr>))"

definition stop :: "source_node \<Rightarrow> error + source_node" where
  "stop n =
     (case start_time n of
        None \<Rightarrow> Inl InvalidStateError
      | Some t \<Rightarrow> Inr (n\<lparr>stopped := True\<rparr>))"

text \<open>
  \<^verbatim>\<open>forEach(source => { try { source.stop(); } catch(e) {} })\<close> over the active set. A
  handle of the set always names a node of the store; the store is left alone for one that
  does not.
\<close>

definition stop_source :: "nat \<Rightarrow> source_node list \<Rightarrow> error + source_node list" where
  "stop_source i ns =
     (if i < length ns
      then (case stop (ns ! i) of Inl e \<Rightarrow> Inl e | Inr n \<Rightarrow> Inr (ns[i := n]))
      else Inr ns)"

definition try_stop_source :: "nat \<Rightarrow> source_node list \<Rightarrow> error + source_node list" where
  "try_stop_source i ns = (case stop_source i ns of Inl e \<Rightarrow> Inr ns | Inr ns' \<Rightarrow> Inr ns')"

fun forEach_stop :: "nat list \<Rightarrow> source_node list \<Rightarrow> error + source_node list" where
  "forEach_stop [] ns = Inr ns"
| "forEach_stop (i # ids) ns =
     (case try_stop_source i ns of Inl e \<Rightarrow> Inl e | Inr ns' \<Rightarrow> forEach_stop ids ns')"

subsection \<open>Teardown\<close>

text \<open>
  \<^verbatim>\<open>cleanup\<close>, in the order of its statements: request the close of the session
  (in a \<^verbatim>\<open>then\<close> whose failure is caught) and forget the promise, stop and clear the
  active sources, close the two contexts (\<^verbatim>\<open>close()\<close> returns a promise), stop the
  tracks of the stream (\<^verbatim>\<open>stop()\<close> of a track never throws), forget the contexts, set
  the status and the volume. Every access to a ref is under its null check.
\<close>

definition request_close :: "state \<Rightarrow> state" where
  "request_close s =
     (case sessionPromiseRef s of
        None \<Rightarrow> s
      | Some p \<Rightarrow> s\<lparr>calls := calls s @ [SessionClose p], sessionPromiseRef := None\<rparr>)"

definition close_contexts :: "state \<Rightarrow> state" where
  "close_contexts s =
     (let s1 = (case inputContextRef s of
                  None \<Rightarrow> s
                | Some c \<Rightarrow> s\<lparr>calls := calls s @ [ContextClose c]\<rparr>)
      in case outputContextRef s1 of
           None \<Rightarrow> s1
         | Some c \<Rightarrow> s1\<lparr>calls := calls s1 @ [ContextClose c]\<rparr>)"

definition stop_tracks :: "state \<Rightarrow> state" where
  "stop_tracks s =
     (case streamRef s of
        None \<Rightarrow> s
      | Some tracks \<Rightarrow> s\<lparr>calls := calls s @ map TrackStop tracks\<rparr>)"

definition cleanup :: "state \<Rightarrow> error + state" where
  "cleanup s =
     (let s1 = request_close s
      in case forEach_stop (activeSourcesRef s1) (nodes s1) of
           Inl e \<Rightarrow> Inl e
         | Inr ns \<Rightarrow>
             (let s2 = s1\<lparr>nodes := ns, activeSourcesRef := []\<rparr>;
                  s3 = close_contexts s2;
                  s4 = stop_tracks s3
              in Inr (s4\<lparr>inputContextRef := None, outputContextRef := None,
                        status := Disconnected, volume := 0\<rparr>)))"

subsection \<open>Starting a session\<close>

text \<open>
  \<^verbatim>\<open>startSession\<close> runs up to \<^verbatim>\<open>await getUserMedia\<close> and resumes when the stream
  arrives. The platform's answers are arguments: the two contexts (creating one may throw),
  the gain node, the stream (the request may be rejected) and the session promise.
  \<open>startSession_begin\<close> also tells whether the \<^verbatim>\<open>await\<close> was reached; an exception
  before it is caught and sets the status to \<^verbatim>\<open>error\<close>. \<open>startSession_resume\<close> takes
  the \<^verbatim>\<open>isMuted\<close> that the running \<^verbatim>\<open>startSession\<close> closed over, which is the
  one of the state it was called in.
\<close>

definition startSession_begin ::
  "(error + nat) \<Rightarrow> (error + nat) \<Rightarrow> nat \<Rightarrow> state \<Rightarrow> state \<times> bool" where
  "startSession_begin inputCtx outputCtx outNode s =
     (let s0 = s\<lparr>status := Connecting, nextStartTimeRef := 0\<rparr>
      in case inputCtx of
           Inl e \<Rightarrow> (s0\<lparr>status := Error\<rparr>, False)
         | Inr ic \<Rightarrow>
             (case outputCtx of
                Inl e \<Rightarrow> (s0\<lparr>inputContextRef := Some ic, status := Error\<rparr>, False)
              | Inr oc \<Rightarrow>
                  (s0\<lparr>inputContextRef := Some ic, outputContextRef := Some oc,
                      outputNodeRef := Some outNode\<rparr>, True)))"

definition startSession_resume ::
  "bool \<Rightarrow> (error + nat list) \<Rightarrow> nat \<Rightarrow> state \<Rightarrow> state" where
  "startSession_resume muted media sessionPromise s =
     (case media of
        Inl e \<Rightarrow> s\<lparr>status := Error\<rparr>
      | Inr stream \<Rightarrow>
          s\<lparr>streamRef := Some stream,
            callbacks := Some \<lparr>cb_isMuted = muted, cb_sessionPromise = sessionPromise\<rparr>,
            sessionPromiseRef := Some sessionPromise\<rparr>)"

definition startSession ::
  "(error + nat) \<Rightarrow> (error + nat) \<Rightarrow> nat \<Rightarrow> (error + nat list) \<Rightarrow> nat \<Rightarrow> state \<Rightarrow> state"
  where
  "startSession inputCtx outputCtx outNode media sessionPromise s =
     (case startSession_begin inputCtx outputCtx outNode s of
        (s1, awaiting) \<Rightarrow>
          (if awaiting then startSession_resume (isMuted s) media sessionPromise s1 else s1))"

subsection \<open>The capture pipeline\<close>

text \<open>
  \<^verbatim>\<open>setupAudioInput\<close> creates the source and the processor, whose handles are arguments,
  and stores the handler. \<open>onaudioprocess_event\<close> is one call of the handler with the
  samples of a captured block; \<^verbatim>\<open>sendRealtimeInput\<close> is reached through the session
  promise of the handler.
\<close>

definition setupAudioInput :: "bool \<Rightarrow> nat \<Rightarrow> nat \<Rightarrow> nat \<Rightarrow> state \<Rightarrow> state" where
  "setupAudioInput muted source processor sessionPromise s =
     s\<lparr>sourceRef := Some source, processorRef := Some processor,
       onaudioprocess := Some \<lparr>h_isMuted = muted, h_sessionPromise = sessionPromise\<rparr>\<rparr>"

definition onOpen :: "nat \<Rightarrow> nat \<Rightarrow> state \<Rightarrow> state" where
  "onOpen source processor s =
     (case callbacks s of
        None \<Rightarrow> s
      | Some cb \<Rightarrow>
          setupAudioInput (cb_isMuted cb) source processor (cb_sessionPromise cb)
            (s\<lparr>status := Connected\<rparr>))"

definition onClose :: "state \<Rightarrow> state" where
  "onClose s = s\<lparr>status := Disconnected\<rparr>"

definition onError :: "state \<Rightarrow> state" where
  "onError s = s\<lparr>status := Error\<rparr>"

text \<open>
  The loudness of a block. A block has 4096 samples; for one without samples the quotient
  is \<^verbatim>\<open>NaN\<close> in JavaScript and 0 here.
\<close>

definition rms :: "real list \<Rightarrow> real" where
  "rms inputData = sqrt (fold (\<lambda>x sum. sum + x * x) inputData 0 / real (length inputData))"

definition onaudioprocess_event :: "real list \<Rightarrow> state \<Rightarrow> state" where
  "onaudioprocess_event inputData s =
     (case onaudioprocess s of
        None \<Rightarrow> s
      | Some h \<Rightarrow>
          (if h_isMuted h then s
           else s\<lparr>volume := min (rms inputData * 5) 1,
                  calls := calls s @
                    [SendRealtimeInput (h_sessionPromise h) (createPcmBlob inputData)]\<rparr>))"

definition toggleMute :: "state \<Rightarrow> state" where
  "toggleMute s = s\<lparr>isMuted := \<not> isMuted s\<rparr>"

subsection \<open>The playback scheduler\<close>

text \<open>
  \<^verbatim>\<open>playAudioChunk\<close> is an \<^verbatim>\<open>async\<close> function: it decodes the payload at once
  (\<open>playAudioChunk_decode\<close>) and, after its \<^verbatim>\<open>await\<close>, schedules the buffer
  (\<open>playAudioChunk_schedule\<close>, with the context's \<^verbatim>\<open>currentTime\<close> as an argument).
  Its \<^verbatim>\<open>catch\<close> logs an exception of either part and keeps what the part had done
  by then. \<open>ended\<close> is the \<^verbatim>\<open>onended\<close> callback of a node.
\<close>

definition playAudioChunk_decode :: "string \<Rightarrow> error + real list" where
  "playAudioChunk_decode base64Audio =
     (case base64ToArrayBuffer base64Audio of
        Inl e \<Rightarrow> Inl e
      | Inr arrayBuffer \<Rightarrow> decodeRawPcm arrayBuffer)"

definition playAudioChunk_schedule :: "real list \<Rightarrow> real \<Rightarrow> state \<Rightarrow> state" where
  "playAudioChunk_schedule audioBuffer currentTime s =
     (let source = \<lparr>buffer = audioBuffer, start_time = None, stopped = False\<rparr>;
          s1 = (if nextStartTimeRef s < currentTime
                then s\<lparr>nextStartTimeRef := currentTime\<rparr> else s)
      in case start (nextStartTimeRef s1) source of
           Inl e \<Rightarrow> s1\<lparr>nodes := nodes s1 @ [source]\<rparr>
         | Inr started \<Rightarrow>
             s1\<lparr>nodes := nodes s1 @ [started],
                nextStartTimeRef := nextStartTimeRef s1 + duration audioBuffer,
                activeSourcesRef := activeSourcesRef s1 @ [length (nodes s1)]\<rparr>)"

definition playAudioChunk :: "string \<Rightarrow> real \<Rightarrow> state \<Rightarrow> state" where
  "playAudioChunk base64Audio currentTime s =
     (case playAudioChunk_decode base64Audio of
        Inl e \<Rightarrow> s
      | Inr audioBuffer \<Rightarrow> playAudioChunk_schedule audioBuffer currentTime s)"

definition ended :: "nat \<Rightarrow> state \<Rightarrow> state" where
  "ended source s = s\<lparr>activeSourcesRef := removeAll source (activeSourcesRef s)\<rparr>"

text \<open>
  The interruption branch of \<^verbatim>\<open>handleServerMessage\<close>: stop the active sources, clear
  the set, reset the cursor.
\<close>

definition flush :: "state \<Rightarrow> error + state" where
  "flush s =
     (case forEach_stop (activeSourcesRef s) (nodes s) of
        Inl e \<Rightarrow> Inl e
      | Inr ns \<Rightarrow> Inr (s\<lparr>nodes := ns, activeSourcesRef := [], nextStartTimeRef := 0\<rparr>))"

text \<open>
  A message carries \<^verbatim>\<open>serverContent?.modelTurn?.parts?.[0]?.inlineData\<close>, whose
  \<^verbatim>\<open>data\<close> is here \<open>inlineData\<close> (\<open>None\<close> when a link of the chain or the data is
  missing; the empty string is falsy as well), and \<^verbatim>\<open>serverContent?.interrupted\<close>.
  \<^verbatim>\<open>handleServerMessage\<close> does not await \<^verbatim>\<open>playAudioChunk\<close>: the chunk is decoded,
  then the interruption branch runs, and the chunk is scheduled after it, when the
  \<^verbatim>\<open>await\<close> inside \<^verbatim>\<open>playAudioChunk\<close> resumes.
\<close>

record server_message =
  inlineData :: "string option"
  interrupted :: bool

definition handleServerMessage :: "server_message \<Rightarrow> real \<Rightarrow> state \<Rightarrow> error + state" where
  "handleServerMessage message currentTime s =
     (let decoded = (case inlineData message of
                       None \<Rightarrow> None
                     | Some base64Audio \<Rightarrow>
                         (if base64Audio = [] then None
                          else Some (playAudioChunk_decode base64Audio)))
      in case (if interrupted message then flush s else Inr s) of
           Inl e \<Rightarrow> Inl e
         | Inr s1 \<Rightarrow>
             (case decoded of
                Some (Inr audioBuffer) \<Rightarrow>
                  Inr (playAudioChunk_schedule audioBuffer currentTime s1)
              | _ \<Rightarrow> Inr s1))"


section \<open>Events\<close>

text \<open>
  The component runs on one thread and only in reaction to events: the effect that starts
  or tears down the session, the callbacks of the session, the end of a playback node, a
  captured block, the mute button. \<open>step\<close> is the reaction to one event, \<open>run\<close> to
  a sequence of them. An event handler that threw would leave the state to the next
  event; none of the two that could does.
\<close>

datatype event =
    Ev_start "error + nat" "error + nat" nat "error + nat list" nat
  | Ev_open nat nat
  | Ev_close
  | Ev_error
  | Ev_message server_message real
  | Ev_ended nat
  | Ev_block "real list"
  | Ev_mute
  | Ev_cleanup

fun step :: "event \<Rightarrow> state \<Rightarrow> state" where
  "step (Ev_start inputCtx outputCtx outNode media sessionPromise) s =
     startSession inputCtx outputCtx outNode media sessionPromise s"
| "step (Ev_open source processor) s = onOpen source processor s"
| "step Ev_close s = onClose s"
| "step Ev_error s = onError s"
| "step (Ev_message message currentTime) s =
     (case handleServerMessage message currentTime s of Inl e \<Rightarrow> s | Inr s' \<Rightarrow> s')"
| "step (Ev_ended source) s = ended source s"
| "step (Ev_block inputData) s = onaudioprocess_event inputData s"
| "step Ev_mute s = toggleMute s"
| "step Ev_cleanup s = (case cleanup s of Inl e \<Rightarrow> s | Inr s' \<Rightarrow> s')"

definition run :: "event list \<Rightarrow> state \<Rightarrow> state" where
  "run evs s = fold step evs s"

section \<open>Auxiliary notions\<close>

text \<open>
  \<open>active_ok\<close>: every member of the active set is a node of the store that was
  started. The set is only ever extended by \<^verbatim>\<open>playAudioChunk\<close>, after
  \<^verbatim>\<open>start\<close> has returned, so this holds in every state the component reaches.
\<close>

definition active_ok :: "state \<Rightarrow> bool" where
  "active_ok s =
     list_all (\<lambda>i. i < length (nodes s) \<and> start_time (nodes s ! i) \<noteq> None)
       (activeSourcesRef s)"

text \<open>The output of \<open>btoa_groups\<close> is a body of alphabet characters and a padding.\<close>

fun btoa_body :: "nat list \<Rightarrow> string" where
  "btoa_body [] = []"
| "btoa_body [a] = [b64_char (a div 4), b64_char ((a mod 4) * 16)]"
| "btoa_body [a, b] =
     [b64_char (a div 4), b64_char ((a mod 4) * 16 + b div 16), b64_char ((b mod 16) * 4)]"
| "btoa_body (a # b # c # rest) =
     b64_char (a div 4) # b64_char ((a mod 4) * 16 + b div 16) #
     b64_char ((b mod 16) * 4 + c div 64) # b64_char (c mod 64) # btoa_body rest"

fun btoa_pad :: "nat list \<Rightarrow> string" where
  "btoa_pad [] = []"
| "btoa_pad [a] = ''==''"
| "btoa_pad [a, b] = ''=''"
| "btoa_pad (a # b # c # rest) = btoa_pad rest"


section \<open>Example states\<close>

text \<open>
  \<open>one_chunk\<close> and \<open>two_chunks\<close>: one and two chunks of one frame each, enqueued at
  time 0 in the initial state.
  \<open>flushed_two_chunks\<close>: the same after an interruption. \<open>live\<close>: a session started
  in the initial state, with its \<^verbatim>\<open>onOpen\<close> callback run.
\<close>

definition one_chunk :: state where
  "one_chunk = playAudioChunk ''AAA='' 0 initial"

definition two_chunks :: state where
  "two_chunks = playAudioChunk ''AAA='' 0 one_chunk"

definition flushed_two_chunks :: state where
  "flushed_two_chunks =
     initial\<lparr>nodes := [\<lparr>buffer = [0], start_time = Some 0, stopped = True\<rparr>,
                        \<lparr>buffer = [0], start_time = Some (1 / 24000), stopped = True\<rparr>]\<rparr>"

definition live :: state where
  "live = onOpen 6 7 (startSession (Inr 1) (Inr 2) 3 (Inr [4]) 5 initial)"

text \<open>\<open>torn_down\<close>: \<open>live\<close> after \<^verbatim>\<open>cleanup\<close>.\<close>

definition torn_down :: state where
  "torn_down =
     initial\<lparr>status := Disconnected,
       outputNodeRef := Some 3, streamRef := Some [4],
       sourceRef := Some 6, processorRef := Some 7,
       callbacks := Some \<lparr>cb_isMuted = False, cb_sessionPromise = 5\<rparr>,
       onaudioprocess := Some \<lparr>h_isMuted = False, h_sessionPromise = 5\<rparr>,
       calls := [SessionClose 5, ContextClose 1, ContextClose 2, TrackStop 4]\<rparr>"

text \<open>
  \<open>played_out\<close>: one chunk enqueued at time 7 whose node has ended. \<open>late_chunks\<close>:
  two chunks, the second enqueued at time 1, after the first has played.
\<close>

definition played_out :: state where
  "played_out = ended 0 (playAudioChunk ''AAA='' 7 initial)"

definition late_chunks :: state where
  "late_chunks = playAudioChunk ''AAA='' 1 one_chunk"

section \<open>Lemmas on the PCM codec\<close>

lemma length_int16_buffer: "length (int16_buffer ws) = 2 * length ws"
  by (induction ws) (simp_all add: int16_buffer_def int16_bytes_def)

lemma int16_buffer_Cons:
  "int16_buffer (w # ws) = ucast w # ucast (drop_bit 8 w) # int16_buffer ws"
  by (simp add: int16_buffer_def int16_bytes_def)

lemma int16_buffer_nth:
  "i < length ws \<Longrightarrow>
     int16_buffer ws ! (2 * i) = ucast (ws ! i) \<and>
     int16_buffer ws ! (2 * i + 1) = ucast (drop_bit 8 (ws ! i))"
proof (induction ws arbitrary: i)
  case Nil
  then show ?case by simp
next
  case (Cons w ws)
  show ?case
  proof (cases i)
    case 0
    then show ?thesis by (simp add: int16_buffer_Cons)
  next
    case (Suc j)
    with Cons.prems have "j < length ws" by simp
    from Cons.IH [OF this] Suc show ?thesis
      by (simp add: int16_buffer_Cons)
  qed
qed

lemma int16_join:
  "(ucast (ucast (w::int16) :: byte) :: int16) OR
   push_bit 8 (ucast (ucast (drop_bit 8 w) :: byte)) = w"
  by (rule bit_word_eqI) (auto simp add: bit_simps)

lemma int16_view_buffer: "int16_view (int16_buffer ws) = ws"
  by (induction ws) (simp_all add: int16_buffer_Cons int16_join, simp add: int16_buffer_def)

lemma sint_mod: "sint (w :: int16) mod 65536 = uint w"
proof -
  have "0 \<le> uint w" "uint w < 65536" using uint_lt2p [of w] by simp_all
  then show ?thesis
    by (simp add: sint_uint signed_take_bit_eq_take_bit_shift take_bit_eq_mod mod_diff_left_eq)
qed

lemma mod_65536_256: "(k::int) mod 65536 mod 256 = k mod 256"
  by (rule mod_mod_cancel) simp

lemma div_65536_256: "(k::int) mod 65536 div 256 = k div 256 mod 256"
  using mod_mult2_eq' [of k 256 256] by simp

lemma uint_low_byte: "uint (ucast (w::int16) :: byte) = sint w mod 256"
proof -
  have "uint (ucast w :: byte) = uint w mod 256"
    by (simp add: unsigned_ucast_eq take_bit_eq_mod)
  also have "\<dots> = (sint w mod 65536) mod 256" by (simp only: sint_mod)
  also have "\<dots> = sint w mod 256" by (rule mod_65536_256)
  finally show ?thesis .
qed

lemma uint_high_byte: "uint (ucast (drop_bit 8 (w::int16)) :: byte) = sint w div 256 mod 256"
proof -
  have "uint (ucast (drop_bit 8 w) :: byte) = (uint w div 256) mod 256"
    by (simp add: unsigned_ucast_eq unsigned_drop_bit_eq take_bit_eq_mod drop_bit_eq_div uint_div_distrib)
  also have "\<dots> = ((sint w mod 65536) div 256) mod 256" by (simp only: sint_mod)
  also have "\<dots> = sint w div 256 mod 256" by (simp add: div_65536_256)
  finally show ?thesis .
qed

lemma sint_toInt16:
  "- 32768 \<le> trunc x \<Longrightarrow> trunc x \<le> 32767 \<Longrightarrow> sint (toInt16 x) = trunc x"
  unfolding toInt16_def by (simp add: signed_of_int signed_take_bit_int_eq_self)

lemma truncate_range:
  "- 32768 \<le> x \<Longrightarrow> x \<le> 32767 \<Longrightarrow> - 32768 \<le> trunc x \<and> trunc x \<le> 32767"
  unfolding trunc_def by (simp add: le_floor_iff floor_le_iff ceiling_le_iff le_ceiling_iff)

lemma sint_pcm_sample_neg:
  assumes "max (- 1) (min 1 d) < 0"
  shows "sint (pcm_sample d) = \<lceil>max (- 1) (min 1 d) * 32768\<rceil>"
proof -
  let ?s = "max (- 1) (min 1 d)"
  have r: "- 32768 \<le> ?s * 32768" "?s * 32768 \<le> 32767" "?s * 32768 < 0"
    using assms by (simp_all add: max_def min_def split: if_splits)
  have "pcm_sample d = toInt16 (?s * 32768)"
    unfolding pcm_sample_def Let_def using assms by (simp only: if_True)
  moreover have "trunc (?s * 32768) = \<lceil>?s * 32768\<rceil>"
    using r(3) by (simp add: trunc_def)
  ultimately show ?thesis
    using truncate_range [OF r(1,2)] sint_toInt16 [of "?s * 32768"] by simp
qed

lemma sint_pcm_sample_nonneg:
  assumes "\<not> max (- 1) (min 1 d) < 0"
  shows "sint (pcm_sample d) = \<lfloor>max (- 1) (min 1 d) * 32767\<rfloor>"
proof -
  let ?s = "max (- 1) (min 1 d)"
  have r: "- 32768 \<le> ?s * 32767" "?s * 32767 \<le> 32767" "\<not> ?s * 32767 < 0"
    using assms by (simp_all add: max_def min_def split: if_splits)
  have "pcm_sample d = toInt16 (?s * 32767)"
    unfolding pcm_sample_def Let_def using assms by (simp only: if_False)
  moreover have "trunc (?s * 32767) = \<lfloor>?s * 32767\<rfloor>"
    using r(3) by (simp add: trunc_def)
  ultimately show ?thesis
    using truncate_range [OF r(1,2)] sint_toInt16 [of "?s * 32767"] by simp
qed

lemma sint_pcm_sample:
  "sint (pcm_sample d) =
     (let s = max (- 1) (min 1 d)
      in if s < 0 then \<lceil>s * 32768\<rceil> else \<lfloor>s * 32767\<rfloor>)"
  using sint_pcm_sample_neg [of d] sint_pcm_sample_nonneg [of d] by (simp add: Let_def)

lemma decodeRawPcm_pcm16_bytes:
  "data \<noteq> [] \<Longrightarrow>
   decodeRawPcm (pcm16_bytes data) =
     Inr (map (\<lambda>d. real_of_int (sint (pcm_sample d)) / 32768) data)"
  by (simp add: decodeRawPcm_def new_Int16Array_def createBuffer_def pcm16_bytes_def
      length_int16_buffer int16_view_buffer comp_def)

lemma pcm_sample_error_nonneg:
  assumes "0 \<le> d" "d \<le> 1"
  shows "\<bar>real_of_int (sint (pcm_sample d)) / 32768 - d\<bar> < 2 / 32768"
proof -
  have s: "max (- 1) (min 1 d) = d" using assms by simp
  have q: "sint (pcm_sample d) = \<lfloor>d * 32767\<rfloor>"
    using sint_pcm_sample_nonneg [of d] assms unfolding s by simp
  define f where "f = real_of_int \<lfloor>d * 32767\<rfloor>"
  have "f \<le> d * 32767" "d * 32767 < f + 1"
    unfolding f_def by linarith+
  with assms have "\<bar>f / 32768 - d\<bar> < 2 / 32768"
    by (simp add: abs_less_iff field_simps)
  then show ?thesis unfolding q f_def .
qed

lemma pcm_sample_error_neg:
  assumes "- 1 \<le> d" "d < 0"
  shows "\<bar>real_of_int (sint (pcm_sample d)) / 32768 - d\<bar> < 1 / 32768"
proof -
  have s: "max (- 1) (min 1 d) = d" using assms by simp
  have q: "sint (pcm_sample d) = \<lceil>d * 32768\<rceil>"
    using sint_pcm_sample_neg [of d] assms unfolding s by simp
  define f where "f = real_of_int \<lceil>d * 32768\<rceil>"
  have "d * 32768 \<le> f" "f < d * 32768 + 1"
    unfolding f_def by linarith+
  with assms have "\<bar>f / 32768 - d\<bar> < 1 / 32768"
    by (simp add: abs_less_iff field_simps)
  then show ?thesis unfolding q f_def .
qed

section \<open>Lemmas on the transport encoding\<close>

lemma index_of_nth: "distinct xs \<Longrightarrow> i < length xs \<Longrightarrow> index_of (xs ! i) xs = i"
proof (induction xs arbitrary: i)
  case Nil
  then show ?case by simp
next
  case (Cons x xs)
  then show ?case by (cases i) auto
qed

lemma length_b64_alphabet: "length b64_alphabet = 64"
  by (simp add: b64_alphabet_def)

lemma distinct_b64_alphabet: "distinct b64_alphabet"
  by (simp add: b64_alphabet_def)

lemma index_b64_char: "i < 64 \<Longrightarrow> index_of (b64_char i) b64_alphabet = i"
  unfolding b64_char_def
  by (rule index_of_nth [OF distinct_b64_alphabet]) (simp add: length_b64_alphabet)

lemma b64_char_member: "i < 64 \<Longrightarrow> List.member b64_alphabet (b64_char i)"
  unfolding b64_char_def by (simp add: length_b64_alphabet)

lemma eq_not_member: "\<not> List.member b64_alphabet CHR ''=''"
  by (simp add: b64_alphabet_def)

lemma ws_not_member: "List.member b64_alphabet c \<Longrightarrow> \<not> ascii_whitespace c"
  by (auto simp add: b64_alphabet_def ascii_whitespace_def)

lemma eq_not_ws: "\<not> ascii_whitespace CHR ''=''"
  by (simp add: ascii_whitespace_def)

lemma btoa_groups_split: "btoa_groups ns = btoa_body ns @ btoa_pad ns"
  by (induction ns rule: btoa_groups.induct) simp_all

lemma btoa_pad_cases:
  "(btoa_pad ns = [] \<and> length (btoa_body ns) mod 4 = 0) \<or>
   (btoa_pad ns = ''='' \<and> length (btoa_body ns) mod 4 = 3) \<or>
   (btoa_pad ns = ''=='' \<and> length (btoa_body ns) mod 4 = 2)"
  by (induction ns rule: btoa_groups.induct) simp_all

lemma sextet_bounds:
  fixes a b c :: nat
  assumes "a < 256" "b < 256" "c < 256"
  shows "a div 4 < 64" "(a mod 4) * 16 + b div 16 < 64" "(b mod 16) * 4 + c div 64 < 64"
    "c mod 64 < 64" "(a mod 4) * 16 < 64" "(b mod 16) * 4 < 64"
proof -
  have "a mod 4 < 4" "b mod 16 < 16" by simp_all
  moreover have "b div 16 < 16" "c div 64 < 4" "a div 4 < 64" using assms by simp_all
  ultimately show "a div 4 < 64" "(a mod 4) * 16 + b div 16 < 64"
    "(b mod 16) * 4 + c div 64 < 64" "c mod 64 < 64" "(a mod 4) * 16 < 64" "(b mod 16) * 4 < 64"
    by simp_all
qed

lemma octet_arith:
  fixes a b c :: nat
  assumes "a < 256" "b < 256" "c < 256"
  shows "a div 4 * 4 + ((a mod 4) * 16 + b div 16) div 16 = a"
    "((a mod 4) * 16 + b div 16) mod 16 * 16 + ((b mod 16) * 4 + c div 64) div 4 = b"
    "((b mod 16) * 4 + c div 64) mod 4 * 64 + c mod 64 = c"
    "a div 4 * 4 + ((a mod 4) * 16) div 16 = a"
    "((a mod 4) * 16 + b div 16) mod 16 * 16 + ((b mod 16) * 4) div 4 = b"
proof -
  have b: "b div 16 < 16" and c: "c div 64 < 4" using assms by simp_all
  show "a div 4 * 4 + ((a mod 4) * 16 + b div 16) div 16 = a"
    using b by simp
  show "((a mod 4) * 16 + b div 16) mod 16 * 16 + ((b mod 16) * 4 + c div 64) div 4 = b"
    using b c by simp
  show "((b mod 16) * 4 + c div 64) mod 4 * 64 + c mod 64 = c"
    using c by simp
  show "a div 4 * 4 + ((a mod 4) * 16) div 16 = a"
    by simp
  show "((a mod 4) * 16 + b div 16) mod 16 * 16 + ((b mod 16) * 4) div 4 = b"
    using b by simp
qed

lemma b64_sextet_member:
  fixes a b c :: nat
  assumes "a < 256" "b < 256" "c < 256"
  shows "b64_char (a div 4) \<in> set b64_alphabet"
    "b64_char ((a mod 4) * 16 + b div 16) \<in> set b64_alphabet"
    "b64_char ((b mod 16) * 4 + c div 64) \<in> set b64_alphabet"
    "b64_char (c mod 64) \<in> set b64_alphabet"
    "b64_char ((a mod 4) * 16) \<in> set b64_alphabet"
    "b64_char ((b mod 16) * 4) \<in> set b64_alphabet"
  using sextet_bounds [OF assms] b64_char_member by simp_all

lemma btoa_body_member:
  "list_all (\<lambda>n. n < 256) ns \<Longrightarrow> list_all (List.member b64_alphabet) (btoa_body ns)"
proof (induction ns rule: btoa_body.induct)
  case 1
  then show ?case by simp
next
  case (2 a)
  then show ?case using b64_sextet_member [of a 0 0] by simp
next
  case (3 a b)
  then show ?case using b64_sextet_member [of a b 0] by simp
next
  case (4 a b c rest)
  then show ?case using b64_sextet_member [of a b c] by simp
qed

lemma atob_groups_btoa_body:
  "list_all (\<lambda>n. n < 256) ns \<Longrightarrow>
   atob_groups (map (\<lambda>c. index_of c b64_alphabet) (btoa_body ns)) = ns"
proof (induction ns rule: btoa_body.induct)
  case 1
  then show ?case by simp
next
  case (2 a)
  then show ?case
    using sextet_bounds [of a 0 0] octet_arith [of a 0 0] by (simp add: index_b64_char)
next
  case (3 a b)
  then show ?case
    using sextet_bounds [of a b 0] octet_arith [of a b 0] by (simp add: index_b64_char)
next
  case (4 a b c rest)
  then show ?case
    using sextet_bounds [of a b c] octet_arith [of a b c] by (simp add: index_b64_char)
qed

lemma drop_last_char:
  assumes "drop n u = v" "n < length u"
  shows "last u = last v"
  using assms last_drop [of n u] by simp

lemma strip_padding_plain:
  assumes "list_all (List.member b64_alphabet) u" "length u mod 4 = 0"
  shows "strip_padding u = u"
proof (cases "u = []")
  case True
  then show ?thesis by (simp add: strip_padding_def)
next
  case False
  then have "last u \<in> set u" by simp
  with assms(1) have l: "last u \<noteq> CHR ''=''"
    using eq_not_member by (auto simp add: list_all_iff)
  from False have len: "length u - 2 < length u" "length u - 1 < length u"
    by (cases u; simp)+
  have "drop (length u - 2) u \<noteq> ''==''"
    using drop_last_char [of "length u - 2" u "''==''"] l len by auto
  moreover have "drop (length u - 1) u \<noteq> ''=''"
    using drop_last_char [of "length u - 1" u "''=''"] l len by auto
  ultimately show ?thesis by (simp add: strip_padding_def)
qed

lemma strip_padding_one:
  assumes "list_all (List.member b64_alphabet) u" "length u mod 4 = 3"
  shows "strip_padding (u @ ''='') = u"
proof -
  have ne: "u \<noteq> []" using assms(2) by auto
  then have "last u \<in> set u" by simp
  with assms(1) have l: "last u \<noteq> CHR ''=''"
    using eq_not_member by (auto simp add: list_all_iff)
  have len: "length (u @ ''='') mod 4 = 0" using assms(2) by (simp add: mod_Suc)
  have "drop (length u - 1) u \<noteq> ''=''"
    using drop_last_char [of "length u - 1" u "''=''"] l ne by (cases u) auto
  then have "drop (length (u @ ''='') - 2) (u @ ''='') \<noteq> ''==''"
    using ne by (simp add: Suc_diff_le Suc_le_eq)
  then show ?thesis using len ne by (simp add: strip_padding_def)
qed

lemma strip_padding_two:
  assumes "length u mod 4 = 2"
  shows "strip_padding (u @ ''=='') = u"
proof -
  have len: "length (u @ ''=='') mod 4 = 0" using assms by (simp add: mod_Suc)
  then show ?thesis by (simp add: strip_padding_def)
qed

lemma strip_padding_btoa:
  assumes "list_all (\<lambda>n. n < 256) ns"
  shows "strip_padding (btoa_groups ns) = btoa_body ns"
  using btoa_pad_cases [of ns] btoa_body_member [OF assms]
  by (auto simp add: btoa_groups_split strip_padding_plain strip_padding_one strip_padding_two)

lemma filter_btoa:
  assumes "list_all (\<lambda>n. n < 256) ns"
  shows "filter (\<lambda>c. \<not> ascii_whitespace c) (btoa_groups ns) = btoa_groups ns"
proof -
  have "\<forall>c\<in>set (btoa_body ns). \<not> ascii_whitespace c"
    using btoa_body_member [OF assms] ws_not_member by (auto simp add: list_all_iff)
  moreover have "\<forall>c\<in>set (btoa_pad ns). \<not> ascii_whitespace c"
    using btoa_pad_cases [of ns] eq_not_ws by auto
  ultimately show ?thesis by (simp add: btoa_groups_split)
qed

lemma atob_btoa_groups:
  assumes "list_all (\<lambda>n. n < 256) ns"
  shows "atob (btoa_groups ns) = Inr (map char_of ns)"
proof -
  have m: "list_all (List.member b64_alphabet) (btoa_body ns)"
    by (rule btoa_body_member [OF assms])
  have "length (btoa_body ns) mod 4 \<noteq> 1"
    using btoa_pad_cases [of ns] by auto
  moreover have "\<not> list_ex (\<lambda>c. \<not> List.member b64_alphabet c) (btoa_body ns)"
    using m by (simp add: list_all_iff list_ex_iff)
  ultimately show ?thesis
    by (simp add: atob_def filter_btoa [OF assms] strip_padding_btoa [OF assms]
        atob_groups_btoa_body [OF assms])
qed

lemma atob_btoa: "atob (btoa s) = Inr s"
proof -
  have "list_all (\<lambda>n. n < 256) (map of_char s :: nat list)"
    by (simp add: list_all_iff)
  from atob_btoa_groups [OF this] show ?thesis
    by (simp add: btoa_def comp_def)
qed

lemma base64_roundtrip: "base64ToArrayBuffer (arrayBufferToBase64 bytes) = Inr bytes"
proof -
  have "word_of_nat (of_char (char_of (unat b) :: char)) = b" for b :: byte
  proof -
    have "unat b < 256" using unsigned_less [of b] by simp
    then show ?thesis by simp
  qed
  then show ?thesis
    by (simp add: base64ToArrayBuffer_def arrayBufferToBase64_def atob_btoa comp_def)
qed

text \<open>The test vectors of RFC 4648, and inputs that only the forgiving decoder takes.\<close>

lemma btoa_rfc4648:
  "btoa '''' = ''''" "btoa ''f'' = ''Zg==''" "btoa ''fo'' = ''Zm8=''"
  "btoa ''foo'' = ''Zm9v''" "btoa ''foob'' = ''Zm9vYg==''" "btoa ''fooba'' = ''Zm9vYmE=''"
  "btoa ''foobar'' = ''Zm9vYmFy''"
  by code_simp+

lemma atob_rfc4648:
  "atob ''Zg=='' = Inr ''f''" "atob ''Zm8='' = Inr ''fo''" "atob ''Zm9vYmFy'' = Inr ''foobar''"
  by code_simp+

lemma atob_forgiving:
  "atob ''Zg'' = Inr ''f''" "atob '' Z m 8 '' = Inr ''fo''"
  "atob ''Zm9vY'' = Inl InvalidCharacterError" "atob ''Zm9v===='' = Inl InvalidCharacterError"
  "atob ''Zm-v'' = Inl InvalidCharacterError"
  by code_simp+

text \<open>
  A blob of four samples: 0, 1, -1 and 1/2 are the integers 0, 32767, -32768 and 16383,
  the bytes \<^verbatim>\<open>00 00 FF 7F 00 80 FF 3F\<close>.
\<close>

lemma createPcmBlob_example:
  "createPcmBlob [0, 1, - 1, 1 / 2] = (''AAD/fwCA/z8='', ''audio/pcm;rate=16000'')"
  by code_simp

section \<open>Lemmas on the playback scheduler\<close>

lemma try_stop_source_eq:
  "try_stop_source i ns =
     Inr (if i < length ns \<and> start_time (ns ! i) \<noteq> None
          then ns[i := (ns ! i)\<lparr>stopped := True\<rparr>] else ns)"
  by (auto simp add: try_stop_source_def stop_source_def stop_def split: option.splits)

lemma forEach_stop_result:
  "\<exists>ns'. forEach_stop ids ns = Inr ns' \<and> length ns' = length ns \<and>
     (\<forall>j<length ns. ns' ! j =
        (if j \<in> set ids \<and> start_time (ns ! j) \<noteq> None
         then (ns ! j)\<lparr>stopped := True\<rparr> else ns ! j))"
proof (induction ids arbitrary: ns)
  case Nil
  then show ?case by simp
next
  case (Cons i ids)
  define ns1 where "ns1 = (if i < length ns \<and> start_time (ns ! i) \<noteq> None
          then ns[i := (ns ! i)\<lparr>stopped := True\<rparr>] else ns)"
  have step: "forEach_stop (i # ids) ns = forEach_stop ids ns1"
    by (simp add: try_stop_source_eq ns1_def)
  have len: "length ns1 = length ns" by (simp add: ns1_def)
  have st: "start_time (ns1 ! j) = start_time (ns ! j)" if "j < length ns" for j
    using that by (simp add: ns1_def nth_list_update)
  have upd: "(ns1 ! j)\<lparr>stopped := True\<rparr> = (ns ! j)\<lparr>stopped := True\<rparr>" if "j < length ns" for j
    using that by (simp add: ns1_def nth_list_update)
  have same: "ns1 ! j = (if j = i \<and> start_time (ns ! j) \<noteq> None
                         then (ns ! j)\<lparr>stopped := True\<rparr> else ns ! j)" if "j < length ns" for j
    using that by (auto simp add: ns1_def nth_list_update)
  from Cons.IH [of ns1] obtain ns' where r: "forEach_stop ids ns1 = Inr ns'"
    "length ns' = length ns1"
    "\<forall>j<length ns1. ns' ! j =
        (if j \<in> set ids \<and> start_time (ns1 ! j) \<noteq> None
         then (ns1 ! j)\<lparr>stopped := True\<rparr> else ns1 ! j)"
    by blast
  have "ns' ! j = (if j \<in> set (i # ids) \<and> start_time (ns ! j) \<noteq> None
         then (ns ! j)\<lparr>stopped := True\<rparr> else ns ! j)" if "j < length ns" for j
    using r(3) that len st [OF that] upd [OF that] same [OF that] by auto
  with step r(1,2) len show ?case by simp
qed

lemma forEach_stop_Nil: "forEach_stop [] ns = Inr ns"
  by simp

lemma flush_result:
  "\<exists>ns. forEach_stop (activeSourcesRef s) (nodes s) = Inr ns \<and>
        flush s = Inr (s\<lparr>nodes := ns, activeSourcesRef := [], nextStartTimeRef := 0\<rparr>) \<and>
        length ns = length (nodes s) \<and>
        (\<forall>j<length (nodes s). ns ! j =
           (if j \<in> set (activeSourcesRef s) \<and> start_time (nodes s ! j) \<noteq> None
            then (nodes s ! j)\<lparr>stopped := True\<rparr> else nodes s ! j))"
  using forEach_stop_result [of "activeSourcesRef s" "nodes s"]
  by (auto simp add: flush_def)

lemma schedule_nonneg:
  assumes "0 \<le> currentTime"
  shows "playAudioChunk_schedule audioBuffer currentTime s =
     s\<lparr>nodes := nodes s @ [\<lparr>buffer = audioBuffer,
                              start_time = Some (max (nextStartTimeRef s) currentTime),
                              stopped = False\<rparr>],
       nextStartTimeRef := max (nextStartTimeRef s) currentTime + duration audioBuffer,
       activeSourcesRef := activeSourcesRef s @ [length (nodes s)]\<rparr>"
  using assms by (simp add: playAudioChunk_schedule_def start_def Let_def max_def)

lemma decode_AAA: "playAudioChunk_decode ''AAA='' = Inr [0]"
  by code_simp

lemma duration_one: "duration [0] = 1 / 24000"
  by (simp add: duration_def)

lemma one_chunk_eq:
  "one_chunk = initial\<lparr>nodes := [\<lparr>buffer = [0], start_time = Some 0, stopped = False\<rparr>],
                       nextStartTimeRef := 1 / 24000, activeSourcesRef := [0]\<rparr>"
  by (simp add: one_chunk_def playAudioChunk_def decode_AAA schedule_nonneg duration_one
      initial_def)

lemma two_chunks_eq:
  "two_chunks = initial\<lparr>nodes := [\<lparr>buffer = [0], start_time = Some 0, stopped = False\<rparr>,
                                 \<lparr>buffer = [0], start_time = Some (1 / 24000), stopped = False\<rparr>],
                        nextStartTimeRef := 2 / 24000, activeSourcesRef := [0, 1]\<rparr>"
  by (simp add: two_chunks_def one_chunk_eq playAudioChunk_def decode_AAA schedule_nonneg
      duration_one initial_def)

lemma active_ok_two_chunks: "active_ok two_chunks"
  by (simp add: two_chunks_eq active_ok_def initial_def del: not_None_eq)

lemma flush_two_chunks: "flush two_chunks = Inr flushed_two_chunks"
  by (simp add: two_chunks_eq flushed_two_chunks_def flush_def try_stop_source_def stop_source_def
      stop_def initial_def)

lemma active_two_chunks: "activeSourcesRef two_chunks = [0, 1]"
  by (simp add: two_chunks_eq)

section \<open>Lemmas on teardown\<close>

lemma forEach_stop_total: "\<exists>ns. forEach_stop ids ns0 = Inr ns \<and> length ns = length ns0"
  using forEach_stop_result [of ids ns0] by blast

lemma request_close_fields:
  "sessionPromiseRef (request_close s) = None"
  "inputContextRef (request_close s) = inputContextRef s"
  "outputContextRef (request_close s) = outputContextRef s"
  "streamRef (request_close s) = streamRef s"
  "processorRef (request_close s) = processorRef s"
  "sourceRef (request_close s) = sourceRef s"
  "outputNodeRef (request_close s) = outputNodeRef s"
  "activeSourcesRef (request_close s) = activeSourcesRef s"
  "nodes (request_close s) = nodes s"
  "nextStartTimeRef (request_close s) = nextStartTimeRef s"
  by (simp_all add: request_close_def split: option.split)

lemma close_contexts_fields:
  "sessionPromiseRef (close_contexts s) = sessionPromiseRef s"
  "streamRef (close_contexts s) = streamRef s"
  "processorRef (close_contexts s) = processorRef s"
  "sourceRef (close_contexts s) = sourceRef s"
  "outputNodeRef (close_contexts s) = outputNodeRef s"
  "activeSourcesRef (close_contexts s) = activeSourcesRef s"
  "nodes (close_contexts s) = nodes s"
  "nextStartTimeRef (close_contexts s) = nextStartTimeRef s"
  by (simp_all add: close_contexts_def Let_def split: option.split)

lemma stop_tracks_fields:
  "sessionPromiseRef (stop_tracks s) = sessionPromiseRef s"
  "streamRef (stop_tracks s) = streamRef s"
  "processorRef (stop_tracks s) = processorRef s"
  "sourceRef (stop_tracks s) = sourceRef s"
  "outputNodeRef (stop_tracks s) = outputNodeRef s"
  "activeSourcesRef (stop_tracks s) = activeSourcesRef s"
  "nodes (stop_tracks s) = nodes s"
  "nextStartTimeRef (stop_tracks s) = nextStartTimeRef s"
  by (simp_all add: stop_tracks_def split: option.split)

lemma cleanup_returns:
  "\<exists>s1. cleanup s = Inr s1 \<and>
     sessionPromiseRef s1 = None \<and> inputContextRef s1 = None \<and>
     outputContextRef s1 = None \<and> activeSourcesRef s1 = [] \<and> status s1 = Disconnected \<and>
     streamRef s1 = streamRef s \<and> processorRef s1 = processorRef s \<and>
     sourceRef s1 = sourceRef s \<and> outputNodeRef s1 = outputNodeRef s \<and>
     nextStartTimeRef s1 = nextStartTimeRef s \<and> length (nodes s1) = length (nodes s)"
proof -
  obtain ns where ns: "forEach_stop (activeSourcesRef (request_close s)) (nodes (request_close s)) = Inr ns"
    "length ns = length (nodes (request_close s))"
    using forEach_stop_total by blast
  let ?s4 = "stop_tracks (close_contexts ((request_close s)\<lparr>nodes := ns, activeSourcesRef := []\<rparr>))"
  have "cleanup s = Inr (?s4\<lparr>inputContextRef := None, outputContextRef := None,
                        status := Disconnected, volume := 0\<rparr>)"
    by (simp add: cleanup_def Let_def ns(1))
  then show ?thesis
    using ns(2) by (simp add: stop_tracks_fields close_contexts_fields request_close_fields)
qed

lemma live_eq:
  "live = initial\<lparr>status := Connected, inputContextRef := Some 1, outputContextRef := Some 2,
     outputNodeRef := Some 3, streamRef := Some [4], sessionPromiseRef := Some 5,
     sourceRef := Some 6, processorRef := Some 7,
     callbacks := Some \<lparr>cb_isMuted = False, cb_sessionPromise = 5\<rparr>,
     onaudioprocess := Some \<lparr>h_isMuted = False, h_sessionPromise = 5\<rparr>\<rparr>"
  by (simp add: live_def onOpen_def startSession_def startSession_begin_def
      startSession_resume_def setupAudioInput_def initial_def)

lemma cleanup_live: "cleanup live = Inr torn_down"
  by (simp add: live_eq cleanup_def request_close_def close_contexts_def stop_tracks_def
      initial_def torn_down_def)

lemma cleanup_torn_down:
  "cleanup torn_down = Inr (torn_down\<lparr>calls := calls torn_down @ [TrackStop 4]\<rparr>)"
  by (simp add: cleanup_def request_close_def close_contexts_def stop_tracks_def
      initial_def torn_down_def)

section \<open>Lemmas on the message handler and the capture handler\<close>

lemma playAudioChunk_decoded:
  "playAudioChunk_decode c = Inr b \<Longrightarrow>
   playAudioChunk c t s = playAudioChunk_schedule b t s"
  by (simp add: playAudioChunk_def)

lemma handleServerMessage_eq:
  "handleServerMessage message t s =
     (case (if interrupted message then flush s else Inr s) of
        Inl e \<Rightarrow> Inl e
      | Inr s1 \<Rightarrow>
          Inr (case inlineData message of
                 None \<Rightarrow> s1
               | Some c \<Rightarrow> if c = [] then s1 else playAudioChunk c t s1))"
  by (simp add: handleServerMessage_def playAudioChunk_def
      split: sum.split option.split)

lemma startSession_cursor: "nextStartTimeRef (startSession ic oc g m p s) = 0"
  by (simp add: startSession_def startSession_begin_def startSession_resume_def Let_def
      split: sum.split)

lemma schedule_cases:
  "\<exists>n. nodes (playAudioChunk_schedule b t s) = nodes s @ [n] \<and>
     (case start_time n of
        None \<Rightarrow> t < 0 \<and>
          activeSourcesRef (playAudioChunk_schedule b t s) = activeSourcesRef s
      | Some w \<Rightarrow> t \<le> w \<and> w = max (nextStartTimeRef s) t \<and>
          activeSourcesRef (playAudioChunk_schedule b t s) =
            activeSourcesRef s @ [length (nodes s)])"
  by (simp add: playAudioChunk_schedule_def start_def Let_def max_def)

lemma fold_ended_fields:
  "nodes (fold ended ids s) = nodes s"
  "nextStartTimeRef (fold ended ids s) = nextStartTimeRef s"
  by (induction ids arbitrary: s) (simp_all add: ended_def)

lemma toggleMute_handler:
  "onaudioprocess_event d (toggleMute s) = toggleMute (onaudioprocess_event d s)"
  by (simp add: onaudioprocess_event_def toggleMute_def split: option.split)

lemma decode_odd:
  assumes "base64ToArrayBuffer c = Inr bytes" and "odd (length bytes)"
  shows "playAudioChunk_decode c = Inl RangeError"
  using assms by (simp add: playAudioChunk_decode_def decodeRawPcm_def new_Int16Array_def
      odd_iff_mod_2_eq_one)

lemma played_out_eq:
  "played_out = initial\<lparr>nodes := [\<lparr>buffer = [0], start_time = Some 7, stopped = False\<rparr>],
                        nextStartTimeRef := 7 + 1 / 24000\<rparr>"
  by (simp add: played_out_def playAudioChunk_def decode_AAA schedule_nonneg duration_one
      ended_def initial_def)

lemma played_out_fields:
  "activeSourcesRef played_out = []"
  "nextStartTimeRef played_out = 7 + 1 / 24000"
  "nodes played_out = [\<lparr>buffer = [0], start_time = Some 7, stopped = False\<rparr>]"
  by (simp_all add: played_out_eq initial_def)

lemma late_chunks_eq:
  "late_chunks = initial\<lparr>nodes := [\<lparr>buffer = [0], start_time = Some 0, stopped = False\<rparr>,
                                  \<lparr>buffer = [0], start_time = Some 1, stopped = False\<rparr>],
                         nextStartTimeRef := 1 + 1 / 24000, activeSourcesRef := [0, 1]\<rparr>"
  by (simp add: late_chunks_def one_chunk_eq playAudioChunk_def decode_AAA schedule_nonneg
      duration_one initial_def)

section \<open>An invariant of the active set\<close>

lemma active_ok_initial: "active_ok initial"
  by (simp add: active_ok_def initial_def)

lemma active_ok_same:
  "nodes s' = nodes s \<Longrightarrow> activeSourcesRef s' = activeSourcesRef s \<Longrightarrow>
   active_ok s \<Longrightarrow> active_ok s'"
  by (simp add: active_ok_def)

lemma active_ok_empty: "activeSourcesRef s = [] \<Longrightarrow> active_ok s"
  by (simp add: active_ok_def)

lemma active_ok_schedule:
  assumes "active_ok s"
  shows "active_ok (playAudioChunk_schedule b t s)"
proof -
  from schedule_cases [of b t s] obtain n where
    n: "nodes (playAudioChunk_schedule b t s) = nodes s @ [n]"
    and c: "case start_time n of
        None \<Rightarrow> t < 0 \<and>
          activeSourcesRef (playAudioChunk_schedule b t s) = activeSourcesRef s
      | Some w \<Rightarrow> t \<le> w \<and> w = max (nextStartTimeRef s) t \<and>
          activeSourcesRef (playAudioChunk_schedule b t s) =
            activeSourcesRef s @ [length (nodes s)]"
    by blast
  have old: "list_all (\<lambda>i. i < length (nodes s @ [n]) \<and>
      start_time ((nodes s @ [n]) ! i) \<noteq> None) (activeSourcesRef s)"
    using assms by (auto simp add: active_ok_def list_all_iff nth_append)
  show ?thesis
  proof (cases "start_time n")
    case None
    with c old n show ?thesis by (simp add: active_ok_def)
  next
    case (Some w)
    with c old n show ?thesis by (simp add: active_ok_def del: not_None_eq)
  qed
qed

lemma active_ok_playAudioChunk: "active_ok s \<Longrightarrow> active_ok (playAudioChunk c t s)"
  by (simp add: playAudioChunk_def active_ok_schedule split: sum.split)

lemma active_ok_ended: "active_ok s \<Longrightarrow> active_ok (ended i s)"
  by (simp add: active_ok_def ended_def list_all_iff)

lemma active_ok_flush: "flush s = Inr s' \<Longrightarrow> active_ok s'"
  by (auto simp add: flush_def active_ok_def split: sum.splits)

lemma active_ok_cleanup: "cleanup s = Inr s' \<Longrightarrow> active_ok s'"
  using cleanup_returns [of s] by (auto intro: active_ok_empty)

lemma active_ok_handleServerMessage:
  assumes "active_ok s" and "handleServerMessage message t s = Inr s'"
  shows "active_ok s'"
proof (cases "interrupted message")
  case True
  from flush_result [of s] obtain sf where f: "flush s = Inr sf" by blast
  then have "active_ok sf" by (rule active_ok_flush)
  with assms(2) True f show ?thesis
    by (auto simp add: handleServerMessage_eq active_ok_playAudioChunk split: option.splits)
next
  case False
  with assms show ?thesis
    by (auto simp add: handleServerMessage_eq active_ok_playAudioChunk split: option.splits)
qed

lemma active_ok_step: "active_ok s \<Longrightarrow> active_ok (step ev s)"
proof (cases ev)
  case (Ev_start ic oc g m p)
  assume "active_ok s"
  then show ?thesis unfolding Ev_start step.simps
    by (rule active_ok_same [rotated 2])
      (simp_all add: startSession_def startSession_begin_def startSession_resume_def
        Let_def split: sum.split)
next
  case (Ev_open src proc)
  assume "active_ok s"
  then show ?thesis unfolding Ev_open step.simps
    by (rule active_ok_same [rotated 2])
      (simp_all add: onOpen_def setupAudioInput_def split: option.split)
next
  case Ev_close
  assume "active_ok s"
  then show ?thesis unfolding Ev_close by (simp add: onClose_def active_ok_def)
next
  case Ev_error
  assume "active_ok s"
  then show ?thesis unfolding Ev_error by (simp add: onError_def active_ok_def)
next
  case (Ev_message message t)
  assume "active_ok s"
  then show ?thesis unfolding Ev_message
    by (auto simp add: active_ok_handleServerMessage split: sum.split)
next
  case (Ev_ended i)
  assume "active_ok s"
  then show ?thesis unfolding Ev_ended by (simp add: active_ok_ended)
next
  case (Ev_block d)
  assume "active_ok s"
  then show ?thesis unfolding Ev_block
    by (simp add: onaudioprocess_event_def active_ok_def split: option.split)
next
  case Ev_mute
  assume "active_ok s"
  then show ?thesis unfolding Ev_mute by (simp add: toggleMute_def active_ok_def)
next
  case Ev_cleanup
  assume "active_ok s"
  then show ?thesis unfolding Ev_cleanup
    by (auto simp add: active_ok_cleanup split: sum.split)
qed

lemma active_ok_run: "active_ok s \<Longrightarrow> active_ok (run evs s)"
  unfolding run_def by (induction evs arbitrary: s) (simp_all add: active_ok_step)

lemma active_ok_reachable: "active_ok (run evs initial)"
  by (rule active_ok_run [OF active_ok_initial])

section \<open>The claims\<close>

subsection \<open>C1: what an interruption does to the scheduler\<close>

text \<open>
  Claim C1, as the code has it. In a state whose active set holds started nodes, as it
  does in every state the component reaches (\<open>active_ok_reachable\<close>), the interruption
  branch of \<^verbatim>\<open>handleServerMessage\<close> returns normally, every node of the
  active set is stopped afterwards, the set is empty and the next-start-time cursor is
  zero. It is not set to the current time of the playback context: the handler of a message
  that carries the interruption flag yields the flushed state, followed by the enqueue of
  the message's own chunk if it has one, and a chunk enqueued in the flushed state at a
  current time \<open>t \<ge> 0\<close> starts at \<open>t\<close>, because the enqueue raises the cursor to the
  current time first.
\<close>

theorem flush_resets_cursor_to_zero:
  assumes "active_ok s"
  shows "\<exists>s'. flush s = Inr s' \<and>
           (\<forall>i\<in>set (activeSourcesRef s). stopped (nodes s' ! i)) \<and>
           activeSourcesRef s' = [] \<and>
           nextStartTimeRef s' = 0 \<and>
           (interrupted message \<longrightarrow>
              handleServerMessage message t s =
                Inr (case inlineData message of
                       None \<Rightarrow> s'
                     | Some c \<Rightarrow> if c = [] then s' else playAudioChunk c t s')) \<and>
           (0 \<le> t \<longrightarrow>
              start_time (last (nodes (playAudioChunk_schedule audioBuffer t s'))) = Some t)"
proof -
  from flush_result [of s] obtain ns where
    f: "flush s = Inr (s\<lparr>nodes := ns, activeSourcesRef := [], nextStartTimeRef := 0\<rparr>)"
    and nth: "\<forall>j<length (nodes s). ns ! j =
           (if j \<in> set (activeSourcesRef s) \<and> start_time (nodes s ! j) \<noteq> None
            then (nodes s ! j)\<lparr>stopped := True\<rparr> else nodes s ! j)"
    by blast
  let ?s' = "s\<lparr>nodes := ns, activeSourcesRef := [], nextStartTimeRef := 0\<rparr>"
  have "stopped (ns ! i)" if "i \<in> set (activeSourcesRef s)" for i
  proof -
    from assms that have "i < length (nodes s)" "start_time (nodes s ! i) \<noteq> None"
      by (simp_all add: active_ok_def list_all_iff)
    with nth that show ?thesis by simp
  qed
  moreover have "interrupted message \<longrightarrow>
      handleServerMessage message t s =
        Inr (case inlineData message of
               None \<Rightarrow> ?s'
             | Some c \<Rightarrow> if c = [] then ?s' else playAudioChunk c t ?s')"
    by (simp add: handleServerMessage_eq f)
  moreover have "0 \<le> t \<longrightarrow>
     start_time (last (nodes (playAudioChunk_schedule audioBuffer t ?s'))) = Some t"
    by (simp add: schedule_nonneg)
  ultimately show ?thesis using f by simp
qed

text \<open>
  The theorem at \<open>two_chunks\<close>, interrupted at time 3 by a message without audio: both
  nodes are stopped and a chunk enqueued next starts at time 3.
\<close>

theorem flush_resets_cursor_to_zero_witness:
  "active_ok two_chunks \<and>
   flush two_chunks = Inr flushed_two_chunks \<and>
   stopped (nodes flushed_two_chunks ! 0) \<and> stopped (nodes flushed_two_chunks ! 1) \<and>
   activeSourcesRef flushed_two_chunks = [] \<and> nextStartTimeRef flushed_two_chunks = 0 \<and>
   handleServerMessage \<lparr>inlineData = None, interrupted = True\<rparr> 3 two_chunks =
     Inr flushed_two_chunks \<and>
   start_time (last (nodes (playAudioChunk_schedule [0] 3 flushed_two_chunks))) = Some 3"
  using flush_resets_cursor_to_zero [OF active_ok_two_chunks,
      of "\<lparr>inlineData = None, interrupted = True\<rparr>" 3 "[0]"]
  by (simp add: active_ok_two_chunks flush_two_chunks active_two_chunks)

text \<open>
  Against C1 as stated: with two chunks scheduled up to time 1/12000, an interruption
  handled at the current time 1/48000 leaves the cursor at zero, which is not the current
  time.
\<close>

theorem flush_cursor_counterexample:
  "nextStartTimeRef two_chunks = 1 / 12000 \<and>
   handleServerMessage \<lparr>inlineData = None, interrupted = True\<rparr> (1 / 48000) two_chunks =
     Inr flushed_two_chunks \<and>
   nextStartTimeRef flushed_two_chunks = 0 \<and>
   nextStartTimeRef flushed_two_chunks \<noteq> 1 / 48000"
  by (simp add: handleServerMessage_def flush_two_chunks)
    (simp add: flushed_two_chunks_def two_chunks_eq initial_def)

subsection \<open>C2: the mute flag and the capture handler\<close>

text \<open>
  Claim C2 says that no captured block is sent while the mute flag is set. The handler
  stored in \<^verbatim>\<open>processor.onaudioprocess\<close> tests the \<^verbatim>\<open>isMuted\<close> of the render in
  which the session was started, not the flag: in \<open>live\<close>, a session started unmuted and
  opened, setting the flag leaves the status at \<^verbatim>\<open>connected\<close>, and the next captured
  block, two silent samples here, is still encoded and handed to
  \<^verbatim>\<open>sendRealtimeInput\<close>.
\<close>

theorem mute_does_not_stop_sends:
  "isMuted (toggleMute live) \<and>
   status (onaudioprocess_event [0, 0] (toggleMute live)) = Connected \<and>
   calls (toggleMute live) = [] \<and>
   calls (onaudioprocess_event [0, 0] (toggleMute live)) =
     [SendRealtimeInput 5 (''AAAAAA=='', ''audio/pcm;rate=16000'')]"
proof -
  have "createPcmBlob [0, 0] = (''AAAAAA=='', ''audio/pcm;rate=16000'')"
    by code_simp
  then show ?thesis
    by (simp add: live_eq toggleMute_def onaudioprocess_event_def initial_def)
qed

subsection \<open>C3: teardown twice\<close>

text \<open>
  Claim C3, as the code has it. In every state \<^verbatim>\<open>cleanup\<close> returns normally, and so
  does a second \<^verbatim>\<open>cleanup\<close> after it; afterwards the session promise and the two
  audio contexts are \<^verbatim>\<open>null\<close>, the active set is empty and the status is
  \<^verbatim>\<open>disconnected\<close>. The refs to the media stream, the processor node, the source node
  and the output gain node are not assigned by \<^verbatim>\<open>cleanup\<close>: they hold what they
  held before.
\<close>

theorem cleanup_twice:
  "\<exists>s1 s2. cleanup s = Inr s1 \<and> cleanup s1 = Inr s2 \<and>
     sessionPromiseRef s2 = None \<and> inputContextRef s2 = None \<and>
     outputContextRef s2 = None \<and> activeSourcesRef s2 = [] \<and> status s2 = Disconnected \<and>
     streamRef s2 = streamRef s \<and> processorRef s2 = processorRef s \<and>
     sourceRef s2 = sourceRef s \<and> outputNodeRef s2 = outputNodeRef s"
proof -
  from cleanup_returns [of s] obtain s1 where 1: "cleanup s = Inr s1"
    "streamRef s1 = streamRef s" "processorRef s1 = processorRef s"
    "sourceRef s1 = sourceRef s" "outputNodeRef s1 = outputNodeRef s"
    by blast
  from cleanup_returns [of s1] obtain s2 where 2: "cleanup s1 = Inr s2"
     "sessionPromiseRef s2 = None" "inputContextRef s2 = None"
     "outputContextRef s2 = None" "activeSourcesRef s2 = []" "status s2 = Disconnected"
     "streamRef s2 = streamRef s1" "processorRef s2 = processorRef s1"
     "sourceRef s2 = sourceRef s1" "outputNodeRef s2 = outputNodeRef s1"
    by blast
  from 1 2 show ?thesis by simp
qed

text \<open>
  Against C3 as stated: after two teardowns of the opened session \<open>live\<close> the stream, the
  processor, the source and the gain node are still referenced (and the track of the
  stream has been stopped a second time).
\<close>

theorem cleanup_handles_counterexample:
  "cleanup live = Inr torn_down \<and>
   cleanup torn_down = Inr (torn_down\<lparr>calls := calls torn_down @ [TrackStop 4]\<rparr>) \<and>
   streamRef (torn_down\<lparr>calls := calls torn_down @ [TrackStop 4]\<rparr>) = Some [4] \<and>
   processorRef (torn_down\<lparr>calls := calls torn_down @ [TrackStop 4]\<rparr>) = Some 7 \<and>
   sourceRef (torn_down\<lparr>calls := calls torn_down @ [TrackStop 4]\<rparr>) = Some 6 \<and>
   outputNodeRef (torn_down\<lparr>calls := calls torn_down @ [TrackStop 4]\<rparr>) = Some 3"
  by (simp add: cleanup_live cleanup_torn_down) (simp add: torn_down_def initial_def)

subsection \<open>C4: the quantisation error of a round trip\<close>

text \<open>
  Claim C4, as the code has it. For a non-empty array of samples in \<open>[-1, 1]\<close>, decoding
  its PCM16 encoding succeeds and yields an array of the same length, and every element
  differs from the sample it came from by less than 2/32768, and by less than 1/32768
  where the sample is negative. The bound of 1/32768 does not hold for all non-negative
  samples, which are scaled by 32767 and decoded by 32768. (For the empty array the
  decoder fails: a buffer of zero frames cannot be created.)
\<close>

theorem pcm_roundtrip_bound:
  assumes "data \<noteq> []" and "\<forall>d\<in>set data. - 1 \<le> d \<and> d \<le> 1"
  shows "\<exists>out. decodeRawPcm (pcm16_bytes data) = Inr out \<and> length out = length data \<and>
           (\<forall>i<length data.
              \<bar>out ! i - data ! i\<bar> < 2 / 32768 \<and>
              (data ! i < 0 \<longrightarrow> \<bar>out ! i - data ! i\<bar> < 1 / 32768))"
proof -
  let ?out = "map (\<lambda>d. real_of_int (sint (pcm_sample d)) / 32768) data"
  have "\<bar>?out ! i - data ! i\<bar> < 2 / 32768 \<and>
        (data ! i < 0 \<longrightarrow> \<bar>?out ! i - data ! i\<bar> < 1 / 32768)" if "i < length data" for i
  proof -
    from that assms(2) have r: "- 1 \<le> data ! i" "data ! i \<le> 1" by simp_all
    show ?thesis
    proof (cases "data ! i < 0")
      case True
      from pcm_sample_error_neg [OF r(1) True] that show ?thesis by simp
    next
      case False
      then have "0 \<le> data ! i" by simp
      from pcm_sample_error_nonneg [OF this r(2)] False that show ?thesis by simp
    qed
  qed
  then show ?thesis
    using decodeRawPcm_pcm16_bytes [OF assms(1)] by simp
qed

text \<open>
  The theorem at the samples 1/2 and -1/4: the first comes back as 16383/32768, the second
  unchanged.
\<close>

theorem pcm_roundtrip_bound_witness:
  "[1 / 2, - 1 / 4] \<noteq> ([] :: real list) \<and>
   decodeRawPcm (pcm16_bytes [1 / 2, - 1 / 4]) = Inr [16383 / 32768, - 1 / 4] \<and>
   \<bar>16383 / 32768 - 1 / 2\<bar> < (2 / 32768 :: real)"
  using pcm_roundtrip_bound [of "[1 / 2, - 1 / 4]"]
  by (simp add: decodeRawPcm_pcm16_bytes sint_pcm_sample)

text \<open>
  Against C4 as stated: the sample 65535/65536 is encoded as 32766 and comes back as
  32766/32768, which is 3/65536 away from it, more than 1/32768.
\<close>

theorem pcm_roundtrip_counterexample:
  "decodeRawPcm (pcm16_bytes [65535 / 65536]) = Inr [32766 / 32768] \<and>
   \<not> \<bar>32766 / 32768 - 65535 / 65536\<bar> \<le> (1 / 32768 :: real)"
  by (simp add: decodeRawPcm_pcm16_bytes sint_pcm_sample)

subsection \<open>C5: consecutive chunks\<close>

text \<open>
  Claim C5, as the code has it. Let two payloads that decode be enqueued one after the
  other, at current times \<open>t1\<close> and \<open>t2\<close> that are not negative, with no flush in
  between but any number of nodes ending. The first chunk starts at the later of the
  cursor and \<open>t1\<close>, and the cursor is then that start plus the chunk's duration. The
  second chunk starts at the later of that cursor and \<open>t2\<close>: at the first chunk's start
  plus its duration when \<open>t2\<close> has not passed it, and at \<open>t2\<close> otherwise. After each
  start the cursor is the start plus the duration of the chunk.
\<close>

theorem consecutive_chunks_start:
  assumes "playAudioChunk_decode c1 = Inr b1" and "playAudioChunk_decode c2 = Inr b2"
    and "0 \<le> t1" and "0 \<le> t2"
    and "s1 = fold ended ids (playAudioChunk c1 t1 s)"
    and "s2 = playAudioChunk c2 t2 s1"
    and "start1 = max (nextStartTimeRef s) t1"
  shows "start_time (nodes s1 ! length (nodes s)) = Some start1 \<and>
         nextStartTimeRef s1 = start1 + duration b1 \<and>
         start_time (nodes s2 ! length (nodes s1)) = Some (max (start1 + duration b1) t2) \<and>
         nextStartTimeRef s2 = max (start1 + duration b1) t2 + duration b2 \<and>
         (t2 \<le> start1 + duration b1 \<longrightarrow>
            start_time (nodes s2 ! length (nodes s1)) = Some (start1 + duration b1))"
proof -
  let ?p = "playAudioChunk c1 t1 s"
  have p: "?p = playAudioChunk_schedule b1 t1 s"
    by (rule playAudioChunk_decoded [OF assms(1)])
  have s2: "s2 = playAudioChunk_schedule b2 t2 s1"
    unfolding assms(6) by (rule playAudioChunk_decoded [OF assms(2)])
  have a: "start_time (nodes s1 ! length (nodes s)) = Some start1"
    and b: "nextStartTimeRef s1 = start1 + duration b1"
    unfolding assms(5) assms(7) fold_ended_fields p
    by (simp_all add: schedule_nonneg [OF assms(3)])
  have c: "start_time (nodes s2 ! length (nodes s1)) = Some (max (nextStartTimeRef s1) t2)"
    and d: "nextStartTimeRef s2 = max (nextStartTimeRef s1) t2 + duration b2"
    unfolding s2 by (simp_all add: schedule_nonneg [OF assms(4)])
  from a b c d show ?thesis by (simp add: max_def)
qed

text \<open>
  The theorem at \<open>one_chunk\<close> and \<open>two_chunks\<close>: both chunks are enqueued at time
  0, the first starts at 0 and lasts 1/24000, the second starts at 1/24000.
\<close>

theorem consecutive_chunks_start_witness:
  "playAudioChunk_decode ''AAA='' = Inr [0] \<and>
   start_time (nodes one_chunk ! 0) = Some 0 \<and>
   nextStartTimeRef one_chunk = 0 + duration [0] \<and>
   start_time (nodes two_chunks ! 1) = Some (0 + duration [0]) \<and>
   nextStartTimeRef two_chunks = 0 + duration [0] + duration [0]"
proof -
  have h1: "one_chunk = fold ended [] (playAudioChunk ''AAA='' 0 initial)"
    by (simp add: one_chunk_def)
  have h2: "two_chunks = playAudioChunk ''AAA='' 0 one_chunk"
    by (simp add: two_chunks_def)
  have h3: "(0 :: real) = max (nextStartTimeRef initial) 0"
    by (simp add: initial_def)
  have z: "(0 :: real) \<le> 0" by simp
  have l: "length (nodes initial) = 0" "length (nodes one_chunk) = 1"
    by (simp_all add: initial_def one_chunk_eq)
  have m: "max (0 + duration [0]) 0 = 0 + duration [0]"
    by (simp add: duration_one)
  from consecutive_chunks_start [OF decode_AAA decode_AAA z z h1 h2 h3]
  show ?thesis unfolding l m using decode_AAA by simp
qed

text \<open>
  Against C5 as stated: in \<open>late_chunks\<close> the first chunk starts at 0 and lasts
  1/24000, the second is enqueued at time 1 with no flush in between, and starts at 1.
\<close>

theorem consecutive_chunks_counterexample:
  "late_chunks = playAudioChunk ''AAA='' 1 (playAudioChunk ''AAA='' 0 initial) \<and>
   start_time (nodes late_chunks ! 0) = Some 0 \<and>
   duration (buffer (nodes late_chunks ! 0)) = 1 / 24000 \<and>
   start_time (nodes late_chunks ! 1) = Some 1 \<and>
   (1 :: real) \<noteq> 0 + 1 / 24000"
proof -
  have "late_chunks = playAudioChunk ''AAA='' 1 (playAudioChunk ''AAA='' 0 initial)"
    by (simp add: late_chunks_def one_chunk_def)
  moreover have "start_time (nodes late_chunks ! 0) = Some 0 \<and>
      duration (buffer (nodes late_chunks ! 0)) = 1 / 24000 \<and>
      start_time (nodes late_chunks ! 1) = Some 1 \<and> (1 :: real) \<noteq> 0 + 1 / 24000"
    by (simp add: late_chunks_eq duration_one)
  ultimately show ?thesis by (rule conjI)
qed

subsection \<open>C6: a payload of odd length\<close>

text \<open>
  Claim C6. Decoding a byte sequence of odd length fails: \<^verbatim>\<open>decodeRawPcm\<close> throws the
  \<^verbatim>\<open>RangeError\<close> of the \<^verbatim>\<open>Int16Array\<close> constructor and returns no buffer, truncated
  or other. When the bytes come from a payload, \<^verbatim>\<open>playAudioChunk\<close> catches the error
  and drops the chunk: the state is as before, and the message handler returns normally.
\<close>

theorem odd_length_is_rejected:
  assumes "odd (length bytes)"
  shows "decodeRawPcm bytes = Inl RangeError \<and>
         (base64ToArrayBuffer c = Inr bytes \<longrightarrow>
            playAudioChunk_decode c = Inl RangeError \<and>
            playAudioChunk c t s = s \<and>
            handleServerMessage \<lparr>inlineData = Some c, interrupted = False\<rparr> t s = Inr s)"
proof -
  have "decodeRawPcm bytes = Inl RangeError"
    using assms by (simp add: decodeRawPcm_def new_Int16Array_def odd_iff_mod_2_eq_one)
  moreover have "playAudioChunk_decode c = Inl RangeError" if "base64ToArrayBuffer c = Inr bytes"
    using decode_odd [OF that assms] .
  ultimately show ?thesis
    by (simp add: playAudioChunk_def handleServerMessage_def)
qed

text \<open>The theorem at the three bytes 1, 2, 3, the payload \<^verbatim>\<open>AQID\<close>.\<close>

theorem odd_length_is_rejected_witness:
  "odd (length [1 :: byte, 2, 3]) \<and> decodeRawPcm [1, 2, 3] = Inl RangeError \<and>
   base64ToArrayBuffer ''AQID'' = Inr [1, 2, 3] \<and>
   playAudioChunk_decode ''AQID'' = Inl RangeError \<and>
   playAudioChunk ''AQID'' 0 two_chunks = two_chunks \<and>
   handleServerMessage \<lparr>inlineData = Some ''AQID'', interrupted = False\<rparr> 0 two_chunks =
     Inr two_chunks"
proof -
  have b: "base64ToArrayBuffer ''AQID'' = Inr [1, 2, 3]" by code_simp
  have o: "odd (length [1 :: byte, 2, 3])" by simp
  from odd_length_is_rejected [OF o, of "''AQID''" 0 two_chunks] b o show ?thesis by simp
qed

subsection \<open>C7: the encoder\<close>

text \<open>
  Claim C7. \<^verbatim>\<open>createPcmBlob\<close> returns the transport encoding of a byte sequence that
  has two bytes for every sample. Sample \<open>i\<close> is clamped to \<open>s\<close> in \<open>[-1, 1]\<close>, scaled
  by 32768 when \<open>s\<close> is negative and by 32767 otherwise, and truncated towards zero to
  an integer \<open>v\<close>, which fits 16 signed bits; the bytes \<open>2 i\<close> and \<open>2 i + 1\<close> are the
  low and the high byte of \<open>v\<close> in two's complement, so that reading the pair back as a
  little-endian 16-bit integer gives \<open>v\<close>.
\<close>

theorem createPcmBlob_encoding:
  "base64ToArrayBuffer (fst (createPcmBlob data)) = Inr (pcm16_bytes data) \<and>
   length (pcm16_bytes data) = 2 * length data \<and>
   (\<forall>i<length data.
      (let s = max (- 1) (min 1 (data ! i));
           v = (if s < 0 then \<lceil>s * 32768\<rceil> else \<lfloor>s * 32767\<rfloor>)
       in - 1 \<le> s \<and> s \<le> 1 \<and> - 32768 \<le> v \<and> v \<le> 32767 \<and>
          sint (int16_view (pcm16_bytes data) ! i) = v \<and>
          uint (pcm16_bytes data ! (2 * i)) = v mod 256 \<and>
          uint (pcm16_bytes data ! (2 * i + 1)) = v div 256 mod 256))"
proof (intro conjI allI impI)
  show "base64ToArrayBuffer (fst (createPcmBlob data)) = Inr (pcm16_bytes data)"
    by (simp add: createPcmBlob_def base64_roundtrip)
next
  show "length (pcm16_bytes data) = 2 * length data"
    by (simp add: pcm16_bytes_def length_int16_buffer)
next
  fix i assume i: "i < length data"
  define s where "s = max (- 1) (min 1 (data ! i))"
  define v where "v = (if s < 0 then \<lceil>s * 32768\<rceil> else \<lfloor>s * 32767\<rfloor>)"
  let ?w = "pcm_sample (data ! i)"
  have sv: "sint ?w = v"
    unfolding v_def s_def using sint_pcm_sample [of "data ! i"] by (simp only: Let_def)
  have w: "map pcm_sample data ! i = ?w" using i by simp
  have nth: "int16_buffer (map pcm_sample data) ! (2 * i) = ucast ?w"
      "int16_buffer (map pcm_sample data) ! (2 * i + 1) = ucast (drop_bit 8 ?w)"
    using int16_buffer_nth [of i "map pcm_sample data"] i w by simp_all
  have lo: "uint (pcm16_bytes data ! (2 * i)) = v mod 256"
    unfolding pcm16_bytes_def nth(1) uint_low_byte sv ..
  have hi: "uint (pcm16_bytes data ! (2 * i + 1)) = v div 256 mod 256"
    unfolding pcm16_bytes_def nth(2) uint_high_byte sv ..
  have vw: "sint (int16_view (pcm16_bytes data) ! i) = v"
    unfolding pcm16_bytes_def int16_view_buffer w sv ..
  have "- (2 ^ 15) \<le> sint ?w \<and> sint ?w < 2 ^ 15"
    using sint_range_size [of ?w] by (simp add: word_size)
  then have rng: "- 32768 \<le> v" "v \<le> 32767" unfolding sv by simp_all
  have srng: "- 1 \<le> s" "s \<le> 1" unfolding s_def by simp_all
  from srng rng vw lo hi
  have "- 1 \<le> s \<and> s \<le> 1 \<and> - 32768 \<le> v \<and> v \<le> 32767 \<and>
          sint (int16_view (pcm16_bytes data) ! i) = v \<and>
          uint (pcm16_bytes data ! (2 * i)) = v mod 256 \<and>
          uint (pcm16_bytes data ! (2 * i + 1)) = v div 256 mod 256"
    by (intro conjI)
  then show "let s = max (- 1) (min 1 (data ! i));
           v = (if s < 0 then \<lceil>s * 32768\<rceil> else \<lfloor>s * 32767\<rfloor>)
       in - 1 \<le> s \<and> s \<le> 1 \<and> - 32768 \<le> v \<and> v \<le> 32767 \<and>
          sint (int16_view (pcm16_bytes data) ! i) = v \<and>
          uint (pcm16_bytes data ! (2 * i)) = v mod 256 \<and>
          uint (pcm16_bytes data ! (2 * i + 1)) = v div 256 mod 256"
    unfolding Let_def v_def s_def .
qed

text \<open>
  The theorem at the samples 1/2 and -1: 16383 is the bytes \<^verbatim>\<open>FF 3F\<close>, -32768 the bytes
  \<^verbatim>\<open>00 80\<close>.
\<close>

theorem createPcmBlob_encoding_witness:
  "length (pcm16_bytes [1 / 2, - 1]) = 4 \<and>
   uint (pcm16_bytes [1 / 2, - 1] ! 0) = 255 \<and> uint (pcm16_bytes [1 / 2, - 1] ! 1) = 63 \<and>
   uint (pcm16_bytes [1 / 2, - 1] ! 2) = 0 \<and> uint (pcm16_bytes [1 / 2, - 1] ! 3) = 128 \<and>
   map sint (int16_view (pcm16_bytes [1 / 2, - 1])) = [16383, - 32768]"
proof -
  note t = createPcmBlob_encoding [of "[1 / 2, - 1]"]
  note a = t [THEN conjunct2, THEN conjunct2, rule_format]
  from t have len: "length (pcm16_bytes [1 / 2, - 1]) = 4" by simp
  from a [of 0] have i0: "sint (int16_view (pcm16_bytes [1 / 2, - 1]) ! 0) = 16383 \<and>
      uint (pcm16_bytes [1 / 2, - 1] ! 0) = 255 \<and> uint (pcm16_bytes [1 / 2, - 1] ! 1) = 63"
    by (simp add: Let_def)
  from a [of 1] have i1: "sint (int16_view (pcm16_bytes [1 / 2, - 1]) ! 1) = - 32768 \<and>
      uint (pcm16_bytes [1 / 2, - 1] ! 2) = 0 \<and> uint (pcm16_bytes [1 / 2, - 1] ! 3) = 128"
    by (simp add: Let_def)
  have v: "int16_view (pcm16_bytes [1 / 2, - 1]) = [pcm_sample (1 / 2), pcm_sample (- 1)]"
    by (simp add: pcm16_bytes_def int16_view_buffer)
  from i0 i1 len show ?thesis unfolding v by simp
qed

subsection \<open>C8: flushing nothing, stopping twice\<close>

text \<open>
  Claim C8, as the code has it. Neither the flush nor the teardown ever raises, in any
  state and whatever the nodes of the active set have been through: \<^verbatim>\<open>stop\<close> is
  called inside a \<^verbatim>\<open>try\<close> whose \<^verbatim>\<open>catch\<close> is empty, so that stopping any node of
  the store is without error for the caller. A flush with an empty active set stops
  nothing and changes nothing but the cursor, which it sets to zero.
\<close>

theorem flush_and_teardown_never_raise:
  "(\<exists>s'. flush s = Inr s') \<and> (\<exists>s'. cleanup s = Inr s') \<and>
   (\<exists>ns. try_stop_source i (nodes s) = Inr ns) \<and>
   (activeSourcesRef s = [] \<longrightarrow> flush s = Inr (s\<lparr>nextStartTimeRef := 0\<rparr>))"
proof -
  have "\<exists>s'. flush s = Inr s'" using flush_result [of s] by blast
  moreover have "\<exists>s'. cleanup s = Inr s'" using cleanup_returns [of s] by blast
  moreover have "\<exists>ns. try_stop_source i (nodes s) = Inr ns"
    by (simp add: try_stop_source_eq)
  moreover have "activeSourcesRef s = [] \<longrightarrow> flush s = Inr (s\<lparr>nextStartTimeRef := 0\<rparr>)"
    by (simp add: flush_def)
  ultimately show ?thesis by blast
qed

text \<open>
  The theorem at \<open>played_out\<close>, whose only node has ended and whose active set is
  empty: the flush returns the state with the cursor at zero, and stopping the node once
  more is not an error.
\<close>

theorem flush_and_teardown_never_raise_witness:
  "activeSourcesRef played_out = [] \<and>
   flush played_out = Inr (played_out\<lparr>nextStartTimeRef := 0\<rparr>) \<and>
   try_stop_source 0 (nodes played_out) =
     Inr [\<lparr>buffer = [0], start_time = Some 7, stopped = True\<rparr>]"
proof -
  note t = flush_and_teardown_never_raise [of played_out 0]
  from t played_out_fields(1)
  have "flush played_out = Inr (played_out\<lparr>nextStartTimeRef := 0\<rparr>)" by blast
  moreover have "try_stop_source 0 (nodes played_out) =
      Inr [\<lparr>buffer = [0], start_time = Some 7, stopped = True\<rparr>]"
    by (simp add: played_out_fields(3) try_stop_source_eq)
  ultimately show ?thesis using played_out_fields(1) by (intro conjI)
qed

text \<open>
  Against C8 as stated: the flush of \<open>played_out\<close>, whose active set is empty, is not
  without effect, it moves the cursor from 7 + 1/24000 to zero.
\<close>

theorem flush_empty_counterexample:
  "activeSourcesRef played_out = [] \<and>
   nextStartTimeRef played_out = 7 + 1 / 24000 \<and>
   flush played_out = Inr (played_out\<lparr>nextStartTimeRef := 0\<rparr>) \<and>
   played_out\<lparr>nextStartTimeRef := 0\<rparr> \<noteq> played_out"
proof -
  have "nextStartTimeRef (played_out\<lparr>nextStartTimeRef := 0\<rparr>) \<noteq> nextStartTimeRef played_out"
    by (simp add: played_out_fields(2))
  then have "played_out\<lparr>nextStartTimeRef := 0\<rparr> \<noteq> played_out" by metis
  moreover have "flush played_out = Inr (played_out\<lparr>nextStartTimeRef := 0\<rparr>)"
    by (simp add: flush_def played_out_fields(1))
  ultimately show ?thesis using played_out_fields(1,2) by (intro conjI)
qed

subsection \<open>C9: the transport encoding loses nothing\<close>

text \<open>
  Claim C9. For every byte sequence, \<^verbatim>\<open>base64ToArrayBuffer\<close> applied to the text that
  \<^verbatim>\<open>arrayBufferToBase64\<close> makes of it succeeds and returns the byte sequence.
\<close>

theorem base64_transport_roundtrip:
  "base64ToArrayBuffer (arrayBufferToBase64 bytes) = Inr bytes"
proof -
  let ?binary = "map (\<lambda>b. char_of (unat b)) bytes"
  have enc: "atob (btoa ?binary) = Inr ?binary"
    by (rule atob_btoa)
  have byte: "word_of_nat (of_char (char_of (unat b) :: char)) = b" for b :: byte
  proof -
    have "unat b < 256" using unsigned_less [of b] by simp
    then show ?thesis by simp
  qed
  have "map (\<lambda>c. word_of_nat (of_char c)) ?binary = bytes"
    by (simp only: map_map comp_def byte) simp
  with enc show ?thesis
    by (simp add: base64ToArrayBuffer_def arrayBufferToBase64_def)
qed

subsection \<open>C10: no chunk is scheduled in the past\<close>

text \<open>
  Claim C10. Whenever \<^verbatim>\<open>playAudioChunk\<close> is run on a payload that decodes, in any
  state and at any current time \<open>t\<close> of the playback context, it creates one node, and if
  the node is started its start time is the later of the cursor and \<open>t\<close>, hence not
  before \<open>t\<close>; it is left unstarted only when \<open>t\<close> is negative, which a context's time
  never is. With the cursor at zero, as \<^verbatim>\<open>startSession\<close> and an interruption leave it,
  and \<open>t \<ge> 0\<close> the node starts at \<open>t\<close>.
\<close>

theorem start_time_not_in_past:
  assumes "playAudioChunk_decode c = Inr b"
  shows "(\<exists>n. nodes (playAudioChunk c t s) = nodes s @ [n] \<and>
           (case start_time n of
              None \<Rightarrow> t < 0 \<and> activeSourcesRef (playAudioChunk c t s) = activeSourcesRef s
            | Some w \<Rightarrow> t \<le> w \<and> w = max (nextStartTimeRef s) t \<and>
                activeSourcesRef (playAudioChunk c t s) =
                  activeSourcesRef s @ [length (nodes s)])) \<and>
         (0 \<le> t \<longrightarrow>
            start_time (last (nodes (playAudioChunk c t (startSession ic oc g m p s)))) =
              Some t) \<and>
         (0 \<le> t \<longrightarrow>
            (\<exists>s'. flush s = Inr s' \<and>
               start_time (last (nodes (playAudioChunk c t s'))) = Some t))"
proof -
  note d = playAudioChunk_decoded [OF assms]
  have "\<exists>n. nodes (playAudioChunk c t s) = nodes s @ [n] \<and>
           (case start_time n of
              None \<Rightarrow> t < 0 \<and> activeSourcesRef (playAudioChunk c t s) = activeSourcesRef s
            | Some w \<Rightarrow> t \<le> w \<and> w = max (nextStartTimeRef s) t \<and>
                activeSourcesRef (playAudioChunk c t s) =
                  activeSourcesRef s @ [length (nodes s)])"
    unfolding d by (rule schedule_cases)
  moreover have "start_time (last (nodes (playAudioChunk c t (startSession ic oc g m p s)))) =
      Some t" if "0 \<le> t"
    unfolding d by (simp add: schedule_nonneg [OF that] startSession_cursor that)
  moreover have "\<exists>s'. flush s = Inr s' \<and>
      start_time (last (nodes (playAudioChunk c t s'))) = Some t" if "0 \<le> t"
  proof -
    from flush_result [of s] obtain ns where
      "flush s = Inr (s\<lparr>nodes := ns, activeSourcesRef := [], nextStartTimeRef := 0\<rparr>)"
      by blast
    then show ?thesis unfolding d by (simp add: schedule_nonneg [OF that] that)
  qed
  ultimately show ?thesis by blast
qed

text \<open>
  The theorem at \<open>flushed_two_chunks\<close>, where the cursor is zero: a chunk enqueued at
  time 3 starts at time 3.
\<close>

theorem start_time_not_in_past_witness:
  "playAudioChunk_decode ''AAA='' = Inr [0] \<and>
   nodes (playAudioChunk ''AAA='' 3 flushed_two_chunks) =
     nodes flushed_two_chunks @ [\<lparr>buffer = [0], start_time = Some 3, stopped = False\<rparr>] \<and>
   activeSourcesRef (playAudioChunk ''AAA='' 3 flushed_two_chunks) = [2]"
  using start_time_not_in_past [OF decode_AAA, of 3 flushed_two_chunks]
  by (simp add: decode_AAA playAudioChunk_decoded [OF decode_AAA] schedule_nonneg
      flushed_two_chunks_def initial_def)

end
